theory Spec2Isabelle
  imports Main "HOL-Library.AList"
begin

section \<open>The tree assembler of \<open>jsd_parser.js\<close>\<close>

text \<open>
  The theory embeds \<open>process_jsd\<close> of \<open>lib/panino/plugins/parsers/jsd_parser.js\<close> from the
  point where the merged docset list is available (the parsing stages before it are other
  modules), together with \<open>createBasicTranslation\<close> and \<open>trim\<close>.

  JavaScript strings are modelled as \<open>string\<close>: a list of 8-bit characters, read as code
  units. An absent (\<open>undefined\<close>) property is \<open>None\<close>. A docset has a string \<open>name\<close> and
  \<open>tagname\<close>, a parameter and a return spec have a string \<open>type\<close>, as in the data model
  of the specification. The objects \<open>nodes\<close> and \<open>list\<close> are plain objects: assigning the
  key \<open>__proto__\<close> sets the prototype and adds no own property.
\<close>

subsection \<open>Values and records\<close>

datatype jsval = JBool bool | JNum int | JStr string

text \<open>JavaScript truthiness of an optional value (\<open>undefined\<close> is falsy).\<close>

fun truthy :: "jsval option \<Rightarrow> bool" where
  "truthy None = False"
| "truthy (Some (JBool b)) = b"
| "truthy (Some (JNum n)) = (n \<noteq> 0)"
| "truthy (Some (JStr s)) = (s \<noteq> [])"

record param =
  p_name :: string
  p_doc :: string
  p_type :: string
  p_optional :: bool

record ret_spec =
  r_type :: string
  r_description :: string

text \<open>The \<open>author\<close> tag is read through its \<open>length\<close> and \<open>doc\<close> properties; a missing
  \<open>length\<close> compares like \<open>0\<close> in \<open>length > 0\<close>.\<close>

record author_tag =
  au_length :: nat
  au_doc :: "string option"

record docset =
  d_tagname :: string
  d_name :: string
  d_doc :: "string option"
  d_linenr :: int
  d_inheritdoc :: "string option"
  d_private :: "jsval option"
  d_experimental :: "jsval option"
  d_chainable :: "jsval option"
  d_see :: "string option"
  d_author :: "author_tag option"
  d_version :: "string option"
  d_since :: "string option"
  d_inherits :: "string list option"
  d_allowchild :: "string option"
  d_define :: "string option"
  d_params :: "param list option"
  d_return :: "ret_spec option"
  d_type :: "string option"
  d_cancelable :: "jsval option"
  d_bubbles :: "jsval option"
  d_bound :: "jsval option"

record argument =
  a_name :: string
  a_description :: string
  a_types :: "string list"
  a_optional :: bool

text \<open>The \<open>ret\<close> object of a method signature starts as \<open>{}\<close>: every field may be absent.\<close>

record ret =
  rt_type :: "string option"
  rt_isArray :: "bool option"
  rt_description :: "string option"

text \<open>A signature object. Methods and events write \<open>arguments\<close> and \<open>return\<close>; properties,
  attributes and bindings write \<open>arguments\<close> and \<open>returns\<close>, a list of \<open>{type: ...}\<close>
  entries (an entry is the docset's \<open>type\<close>, possibly \<open>undefined\<close>).\<close>

record signature =
  sg_arguments :: "argument list option"
  sg_return :: "ret option"
  sg_returns :: "string option list option"

record node =
  n_id :: string
  n_type :: string
  n_inheritdoc :: "string option"
  n_description :: "string option"
  n_short_description :: "string option"
  n_line :: int
  n_private :: "jsval option"
  n_experimental :: "jsval option"
  n_chainable :: "jsval option"
  n_related_to :: "string option"
  n_author :: "string option"
  n_version :: "string option"
  n_since :: "string option"
  n_inherits :: "string list option"
  n_allowchild :: "string option"
  n_define :: "string option"
  n_signatures :: "signature list option"
  n_arguments :: "argument list option"
  n_cancelable :: "jsval option"
  n_bubbles :: "jsval option"
  n_aliases :: "string list option"
  n_children :: "string list option"
  n_file :: "string option"
  n_subclasses :: "string list option"
  n_section :: "string option"
  n_bound :: "jsval option"

record options =
  globalNS :: "string option"

datatype warning =
  CommaTypes string
| UnknownTag string string

datatype error =
  FatalName docset
| TypeError

subsection \<open>String primitives\<close>

text \<open>\<open>String.prototype.indexOf\<close> and \<open>lastIndexOf\<close> for a one-character needle;
  \<open>-1\<close> when it does not occur.\<close>

fun indexOf :: "char \<Rightarrow> string \<Rightarrow> int" where
  "indexOf c [] = -1"
| "indexOf c (x # xs) =
     (if x = c then 0 else (let r = indexOf c xs in if r < 0 then -1 else r + 1))"

definition lastIndexOf :: "char \<Rightarrow> string \<Rightarrow> int" where
  "lastIndexOf c s =
     (let r = indexOf c (rev s) in if r < 0 then -1 else int (length s) - 1 - r)"

text \<open>\<open>s.split(c)\<close> for a one-character separator.\<close>

fun split :: "char \<Rightarrow> string \<Rightarrow> string list" where
  "split c [] = [[]]"
| "split c (x # xs) =
     (if x = c then [] # split c xs
      else (case split c xs of [] \<Rightarrow> [[x]] | y # ys \<Rightarrow> (x # y) # ys))"

text \<open>\<open>s.substr(start, len)\<close>; a length that is not positive gives the empty string.\<close>

definition substr :: "string \<Rightarrow> nat \<Rightarrow> int \<Rightarrow> string" where
  "substr s start len = take (nat len) (drop start s)"

text \<open>\<open>trim\<close>: \<open>str.replace(/^ +| +$/g, '')\<close> removes the leading and the trailing run of
  spaces.\<close>

definition trim :: "string \<Rightarrow> string" where
  "trim str = rev (dropWhile (\<lambda>c. c = CHR '' '') (rev (dropWhile (\<lambda>c. c = CHR '' '') str)))"

text \<open>\<open>/^@todo/i.test(doc)\<close>.\<close>

fun todo_test :: "string \<Rightarrow> bool" where
  "todo_test (c0 # c1 # c2 # c3 # c4 # rest) =
     (c0 = CHR ''@'' \<and> (c1 = CHR ''t'' \<or> c1 = CHR ''T'') \<and> (c2 = CHR ''o'' \<or> c2 = CHR ''O'')
      \<and> (c3 = CHR ''d'' \<or> c3 = CHR ''D'') \<and> (c4 = CHR ''o'' \<or> c4 = CHR ''O''))"
| "todo_test s = False"

text \<open>\<open>description.replace(/\n\n[\s\S]*$/, '\n')\<close>: everything from the first blank line
  on is replaced by one newline.\<close>

fun short_description :: "string \<Rightarrow> string" where
  "short_description (a # b # rest) =
     (if a = CHR 0x0A \<and> b = CHR 0x0A then [CHR 0x0A] else a # short_description (b # rest))"
| "short_description s = s"

subsection \<open>The filter on docsets\<close>

text \<open>The callback of \<open>_.filter\<close>: a docset stays when its \<open>doc\<close> is defined and does not
  start with \<open>@todo\<close>, or when it has an \<open>inheritdoc\<close>.\<close>

definition keep_docset :: "docset \<Rightarrow> bool" where
  "keep_docset i =
     (if d_doc i \<noteq> None \<and> \<not> todo_test (the (d_doc i)) then True
      else if d_inheritdoc i \<noteq> None then True
      else False)"

definition filter_docsets :: "docset list \<Rightarrow> docset list" where
  "filter_docsets remainingNodes = filter keep_docset remainingNodes"

subsection \<open>Reject with a callback that assigns captured variables\<close>

text \<open>The variables of \<open>process_jsd\<close> that the two \<open>_.reject\<close> callbacks assign: \<open>classPrefix\<close>
  and the \<open>nodes\<close> object; \<open>warns\<close> collects what \<open>console.warn\<close> prints. The \<open>nodes\<close> object
  is an association list in insertion order: assigning an existing key keeps its place.\<close>

record pstate =
  classPrefix :: "string option"
  nodes :: "(string \<times> node) list"
  warns :: "warning list"

text \<open>The assignment \<open>nodes[key] = node\<close>. The key \<open>__proto__\<close> sets the prototype of the
  object and adds no own property, so the later enumeration does not see it; any other key
  is added at the end or, when it is there already, keeps its place.\<close>

definition set_prop :: "string \<Rightarrow> 'v \<Rightarrow> (string \<times> 'v) list \<Rightarrow> (string \<times> 'v) list" where
  "set_prop key v obj = (if key = ''__proto__'' then obj else AList.update key v obj)"

text \<open>\<open>_.reject(list, callback)\<close>: the elements are visited in order, those with a truthy
  result are left out. A callback that exits or throws stops the run.\<close>

fun reject :: "('a \<Rightarrow> pstate \<Rightarrow> error + bool \<times> pstate) \<Rightarrow> 'a list \<Rightarrow> pstate
    \<Rightarrow> error + 'a list \<times> pstate" where
  "reject f [] s = Inr ([], s)"
| "reject f (x # xs) s =
     (case f x s of
        Inl e \<Rightarrow> Inl e
      | Inr (b, s') \<Rightarrow>
          (case reject f xs s' of
             Inl e \<Rightarrow> Inl e
           | Inr (ys, s'') \<Rightarrow> Inr (if b then ys else x # ys, s'')))"

subsection \<open>Basic node translation\<close>

text \<open>\<open>createBasicTranslation(memberName, type, i)\<close>. Without \<open>inheritdoc\<close> the description
  is \<open>i["doc"]\<close> and \<open>replace\<close> is called on it: a \<open>TypeError\<close> when it is undefined. The
  properties \<open>section\<close> and \<open>bound\<close>, which the last pass reads, are not written here.\<close>

definition createBasicTranslation :: "string \<Rightarrow> string \<Rightarrow> docset \<Rightarrow> error + node" where
  "createBasicTranslation memberName typ i =
     (if d_inheritdoc i = None \<and> d_doc i = None then Inl TypeError
      else Inr \<lparr>
        n_id = memberName,
        n_type = typ,
        n_inheritdoc = d_inheritdoc i,
        n_description = (if d_inheritdoc i \<noteq> None then None else d_doc i),
        n_short_description =
          (if d_inheritdoc i \<noteq> None then None else map_option short_description (d_doc i)),
        n_line = d_linenr i,
        n_private = d_private i,
        n_experimental = d_experimental i,
        n_chainable = d_chainable i,
        n_related_to = d_see i,
        n_author =
          (case d_author i of
             None \<Rightarrow> None
           | Some a \<Rightarrow> if au_length a > 0 then au_doc a else None),
        n_version = d_version i,
        n_since = d_since i,
        n_inherits = None,
        n_allowchild = None,
        n_define = None,
        n_signatures = None,
        n_arguments = None,
        n_cancelable = None,
        n_bubbles = None,
        n_aliases = None,
        n_children = None,
        n_file = None,
        n_subclasses = None,
        n_section = None,
        n_bound = None \<rparr>)"

subsection \<open>Grabbing the class name\<close>

text \<open>The callback of the first \<open>_.reject\<close>, run on every element of \<open>merged\<close>;
  \<open>class_node\<close> is the object that ends up in \<open>nodes[classPrefix]\<close>: the basic translation
  with \<open>inherits\<close>, \<open>allowchild\<close> and \<open>define\<close> assigned; \<open>is_class\<close> is the test of the
  callback.\<close>

definition class_node :: "docset \<Rightarrow> error + node" where
  "class_node i =
     (case createBasicTranslation (d_name i) ''class'' i of
        Inl e \<Rightarrow> Inl e
      | Inr node \<Rightarrow>
          Inr (node\<lparr>n_inherits :=
                       (case d_inherits i of
                          None \<Rightarrow> None
                        | Some h \<Rightarrow> if length h > 0 then Some h else None),
                    n_allowchild := d_allowchild i,
                    n_define := d_define i\<rparr>))"

definition is_class :: "docset \<Rightarrow> bool" where
  "is_class i = (d_tagname i = ''class'' \<and> d_doc i \<noteq> None)"

definition class_callback :: "docset \<Rightarrow> pstate \<Rightarrow> error + bool \<times> pstate" where
  "class_callback i s =
     (if is_class i then
        (case class_node i of
           Inl e \<Rightarrow> Inl e
         | Inr node \<Rightarrow>
             Inr (True,
               s\<lparr>classPrefix := Some (d_name i),
                 nodes := set_prop (d_name i) node (nodes s)\<rparr>))
      else Inr (False, s))"

subsection \<open>Member names\<close>

text \<open>\<open>[classPrefix, i["name"]].join(joinChar)\<close>: an undefined element joins as the empty
  string.\<close>

definition join2 :: "string option \<Rightarrow> string \<Rightarrow> string \<Rightarrow> string" where
  "join2 prefix name joinChar = (case prefix of None \<Rightarrow> [] | Some p \<Rightarrow> p) @ joinChar @ name"

text \<open>Truthiness of \<open>options.globalNS\<close>.\<close>

definition globalNS_truthy :: "options \<Rightarrow> bool" where
  "globalNS_truthy opts = (case globalNS opts of None \<Rightarrow> False | Some g \<Rightarrow> g \<noteq> [])"

text \<open>The head of the second callback: the new \<open>classPrefix\<close> and \<open>memberName\<close>.\<close>

definition resolve_name :: "options \<Rightarrow> string option \<Rightarrow> docset \<Rightarrow> string option \<times> string" where
  "resolve_name opts prefix i =
     (let isEvent = (d_tagname i = ''event'');
          joinChar = (if isEvent then ''@'' else ''.'')
      in if prefix = None \<and> globalNS_truthy opts
           then (globalNS opts, join2 (globalNS opts) (d_name i) joinChar)
         else if globalNS opts = None
           then (prefix, join2 prefix (d_name i) [])
         else (prefix, join2 prefix (d_name i) joinChar))"

text \<open>The test that leads to \<open>process.exit(1)\<close>.\<close>

definition fatal_name :: "string \<Rightarrow> docset \<Rightarrow> bool" where
  "fatal_name memberName i =
     (lastIndexOf CHR ''.'' memberName = int (length memberName) - 1 \<and> d_inheritdoc i = None)"

subsection \<open>Arguments and return of a method or event\<close>

definition make_arg :: "string \<Rightarrow> param \<Rightarrow> argument \<times> warning list" where
  "make_arg memberName p =
     (if indexOf CHR ''|'' (p_type p) \<ge> 0 then
        (\<lparr>a_name = p_name p, a_description = p_doc p,
          a_types = map trim (split CHR ''|'' (p_type p)), a_optional = p_optional p\<rparr>, [])
      else if indexOf CHR '','' (p_type p) \<ge> 0 then
        (\<lparr>a_name = p_name p, a_description = p_doc p,
          a_types = [], a_optional = p_optional p\<rparr>, [CommaTypes memberName])
      else
        (\<lparr>a_name = p_name p, a_description = p_doc p,
          a_types = [p_type p], a_optional = p_optional p\<rparr>, []))"

text \<open>\<open>_.each(i["params"], ...)\<close>: the arguments in order, with the warnings printed.\<close>

fun make_args :: "string \<Rightarrow> param list \<Rightarrow> argument list \<times> warning list" where
  "make_args memberName [] = ([], [])"
| "make_args memberName (p # ps) =
     (case make_arg memberName p of
        (a, w) \<Rightarrow> (case make_args memberName ps of (as, ws) \<Rightarrow> (a # as, w @ ws)))"

definition make_ret :: "ret_spec option \<Rightarrow> ret" where
  "make_ret r =
     (case r of
        None \<Rightarrow> \<lparr>rt_type = None, rt_isArray = None, rt_description = None\<rparr>
      | Some rs \<Rightarrow>
          if indexOf CHR ''['' (r_type rs) = 0 then
            \<lparr>rt_type = Some (substr (r_type rs) 1 (int (length (r_type rs)) - 2)),
             rt_isArray = Some True,
             rt_description = Some (r_description rs)\<rparr>
          else
            \<lparr>rt_type = Some (r_type rs),
             rt_isArray = None,
             rt_description = Some (r_description rs)\<rparr>)"

text \<open>The node of a method or event docset, with the warnings of its parameters. The one
  signature holds the node's own \<open>arguments\<close> value.\<close>

definition member_node :: "string \<Rightarrow> bool \<Rightarrow> docset \<Rightarrow> error + node \<times> warning list" where
  "member_node memberName isEvent i =
     (case createBasicTranslation memberName (if isEvent then ''event'' else ''method'') i of
        Inl e \<Rightarrow> Inl e
      | Inr node \<Rightarrow>
          (case (case d_params i of
                   None \<Rightarrow> (None, [])
                 | Some ps \<Rightarrow> (case make_args memberName ps of (as, ws) \<Rightarrow> (Some as, ws))) of
             (args, ws) \<Rightarrow>
               (let node1 = node\<lparr>n_arguments := args,
                                   n_signatures :=
                                     Some [\<lparr>sg_arguments = args,
                                            sg_return = Some (make_ret (d_return i)),
                                            sg_returns = None\<rparr>]\<rparr>
                in Inr (if isEvent
                        then node1\<lparr>n_cancelable := d_cancelable i, n_bubbles := d_bubbles i\<rparr>
                        else node1,
                        ws))))"

text \<open>The node of a property, attribute or binding docset (three branches of the same
  shape in the source).\<close>

definition value_node :: "string \<Rightarrow> string \<Rightarrow> docset \<Rightarrow> error + node" where
  "value_node memberName typ i =
     (case createBasicTranslation memberName typ i of
        Inl e \<Rightarrow> Inl e
      | Inr node \<Rightarrow>
          Inr (node\<lparr>n_signatures :=
                 Some [\<lparr>sg_arguments = None, sg_return = None,
                        sg_returns = Some [d_type i]\<rparr>]\<rparr>))"

subsection \<open>The second callback\<close>

definition translate_callback :: "options \<Rightarrow> string \<Rightarrow> docset \<Rightarrow> pstate
    \<Rightarrow> error + bool \<times> pstate" where
  "translate_callback opts file i s =
     (case resolve_name opts (classPrefix s) i of
        (prefix, memberName) \<Rightarrow>
          if fatal_name memberName i then Inl (FatalName i)
          else if d_tagname i = ''method'' \<or> d_tagname i = ''event'' then
            (case member_node memberName (d_tagname i = ''event'') i of
               Inl e \<Rightarrow> Inl e
             | Inr (node, ws) \<Rightarrow>
                 Inr (True, s\<lparr>classPrefix := prefix,
                               nodes := set_prop memberName node (nodes s),
                               warns := warns s @ ws\<rparr>))
          else if d_tagname i = ''property'' \<or> d_tagname i = ''attribute''
                  \<or> d_tagname i = ''binding'' then
            (case value_node memberName (d_tagname i) i of
               Inl e \<Rightarrow> Inl e
             | Inr node \<Rightarrow>
                 Inr (True, s\<lparr>classPrefix := prefix,
                               nodes := set_prop memberName node (nodes s)\<rparr>))
          else
            Inr (True, s\<lparr>classPrefix := prefix,
                          warns := warns s @ [UnknownTag (d_tagname i) file]\<rparr>))"

subsection \<open>The id of a bound method's clone\<close>

text \<open>\<open>node.id.replace(/(.+)\.(.+)$/, '$1#$2')\<close>. In a regular expression \<open>.\<close> matches
  every character but a line terminator (of those, line feed and carriage return are
  characters of the model).\<close>

definition line_char :: "char \<Rightarrow> bool" where
  "line_char c = (c \<noteq> CHR 0x0A \<and> c \<noteq> CHR 0x0D)"

text \<open>\<open>(.+)\<close> matches exactly the string \<open>s\<close>.\<close>

definition dot_plus :: "string \<Rightarrow> bool" where
  "dot_plus s = (s \<noteq> [] \<and> list_all line_char s)"

text \<open>A match that starts at index \<open>s\<close>: the first group is greedy, so the index \<open>e\<close> of the
  literal dot is the largest one for which the rest of the pattern matches up to the end
  of the string.\<close>

definition bound_match_end :: "string \<Rightarrow> nat \<Rightarrow> nat option" where
  "bound_match_end str s =
     List.find
       (\<lambda>e. dot_plus (take (e - s) (drop s str)) \<and> str ! e = CHR ''.''
            \<and> dot_plus (drop (Suc e) str))
       (rev [Suc s ..< length str])"

text \<open>The match is the one at the leftmost start index that has any.\<close>

definition bound_exec :: "string \<Rightarrow> (nat \<times> nat) option" where
  "bound_exec str =
     (case List.find (\<lambda>s. bound_match_end str s \<noteq> None) [0 ..< length str] of
        None \<Rightarrow> None
      | Some s \<Rightarrow> (case bound_match_end str s of None \<Rightarrow> None | Some e \<Rightarrow> Some (s, e)))"

text \<open>The replacement: the text before the match, \<open>$1\<close>, \<open>#\<close>, \<open>$2\<close>; a string without a
  match is returned as it is.\<close>

definition replace_bound :: "string \<Rightarrow> string" where
  "replace_bound str =
     (case bound_exec str of
        None \<Rightarrow> str
      | Some (s, e) \<Rightarrow> take s str @ take (e - s) (drop s str) @ ''#'' @ drop (Suc e) str)"

subsection \<open>The pass over the nodes\<close>

text \<open>\<open>node.section || ''\<close>.\<close>

definition section_or_empty :: "node \<Rightarrow> string" where
  "section_or_empty node = (case n_section node of None \<Rightarrow> [] | Some sec \<Rightarrow> sec)"

text \<open>The assignment \<open>list[key] = node\<close>, with the same treatment of \<open>__proto__\<close>.\<close>

definition set_key :: "string \<Rightarrow> 'v \<Rightarrow> (string \<rightharpoonup> 'v) \<Rightarrow> (string \<rightharpoonup> 'v)" where
  "set_key key v list = (if key = ''__proto__'' then list else list(key \<mapsto> v))"

text \<open>The body of \<open>_.each(nodes, ...)\<close> for one node, on the \<open>list\<close> object. \<open>list\<close> holds
  the node object itself, so the later assignment to \<open>node.bound\<close> shows in the stored
  node; the clone is a shallow copy of the node taken before that assignment.\<close>

definition post_node :: "string \<Rightarrow> node \<Rightarrow> (string \<rightharpoonup> node) \<Rightarrow> (string \<rightharpoonup> node)" where
  "post_node file node0 list =
     (let node1 = node0\<lparr>n_aliases := Some [], n_children := Some [], n_file := Some file\<rparr>;
          node = (if n_type node1 = ''class'' then node1\<lparr>n_subclasses := Some []\<rparr> else node1)
      in if n_type node = ''section'' then set_key (n_id node) node list
         else if n_type node = ''method'' \<and> truthy (n_bound node) then
           (let clone_id = replace_bound (n_id node)
            in set_key (section_or_empty node @ ''.'' @ clone_id)
                 (node\<lparr>n_id := clone_id, n_bound := Some (JStr (n_id node))\<rparr>)
                 (set_key (section_or_empty node @ ''.'' @ n_id node)
                    (node\<lparr>n_bound := Some (JStr clone_id)\<rparr>) list))
         else set_key (section_or_empty node @ ''.'' @ n_id node) node list)"

text \<open>The order in which the keys of an object are enumerated: the keys that are array
  indices (canonical decimal numbers below \<open>2^32 - 1\<close>) in ascending order, then the
  other keys in insertion order.\<close>

definition is_digit :: "char \<Rightarrow> bool" where
  "is_digit c = (48 \<le> (of_char c :: nat) \<and> (of_char c :: nat) \<le> 57)"

definition num_of :: "string \<Rightarrow> nat" where
  "num_of s = foldl (\<lambda>a c. 10 * a + ((of_char c :: nat) - 48)) 0 s"

definition is_array_index :: "string \<Rightarrow> bool" where
  "is_array_index s =
     (s \<noteq> [] \<and> list_all is_digit s \<and> (hd s = CHR ''0'' \<longrightarrow> s = ''0'')
      \<and> num_of s < 4294967295)"

definition js_enum :: "(string \<times> 'a) list \<Rightarrow> (string \<times> 'a) list" where
  "js_enum obj =
     sort_key (\<lambda>kv. num_of (fst kv)) (filter (\<lambda>kv. is_array_index (fst kv)) obj)
       @ filter (\<lambda>kv. \<not> is_array_index (fst kv)) obj"

definition post_process :: "string \<Rightarrow> (string \<times> node) list \<Rightarrow> (string \<rightharpoonup> node)" where
  "post_process file obj = fold (\<lambda>kv list. post_node file (snd kv) list) (js_enum obj) Map.empty"

subsection \<open>The whole of \<open>process_jsd\<close> after parsing\<close>

text \<open>The result is the fatal exit or exception, or the \<open>list\<close> object handed to the
  callback together with the warnings printed on the way.\<close>

definition init_state :: pstate where
  "init_state = \<lparr>classPrefix = None, nodes = [], warns = []\<rparr>"

definition process_jsd :: "docset list \<Rightarrow> string \<Rightarrow> options
    \<Rightarrow> error + (string \<rightharpoonup> node) \<times> warning list" where
  "process_jsd merged file opts =
     (case reject class_callback merged init_state of
        Inl e \<Rightarrow> Inl e
      | Inr (remainingNodes, s1) \<Rightarrow>
          (case reject (translate_callback opts file) (filter_docsets remainingNodes) s1 of
             Inl e \<Rightarrow> Inl e
           | Inr (remainingNodes2, s2) \<Rightarrow> Inr (post_process file (nodes s2), warns s2)))"

subsection \<open>Nodes as the two passes write them\<close>

text \<open>A node that \<open>createBasicTranslation\<close> made for the key \<open>k\<close>: its id is the key, it has
  neither \<open>section\<close> nor \<open>bound\<close> and is no section node. The \<open>nodes\<close> object holds such
  nodes under distinct keys.\<close>

definition plain_node :: "string \<Rightarrow> node \<Rightarrow> bool" where
  "plain_node k n =
     (n_id n = k \<and> n_section n = None \<and> n_bound n = None \<and> n_type n \<noteq> ''section'')"

definition plain_nodes :: "(string \<times> node) list \<Rightarrow> bool" where
  "plain_nodes obj = (distinct (map fst obj) \<and> list_all (\<lambda>kv. plain_node (fst kv) (snd kv)) obj)"

subsection \<open>Reading results\<close>

text \<open>The node under a key of the delivered \<open>list\<close> (none after a fatal exit), and the
  captured variables after a \<open>reject\<close> run.\<close>

definition lookup_result :: "error + (string \<rightharpoonup> node) \<times> warning list \<Rightarrow> string \<Rightarrow> node option" where
  "lookup_result r key = (case r of Inl e \<Rightarrow> None | Inr (list, ws) \<Rightarrow> list key)"

definition result_state :: "error + 'a \<times> pstate \<Rightarrow> pstate option" where
  "result_state r = (case r of Inl e \<Rightarrow> None | Inr (x, s) \<Rightarrow> Some s)"

definition result_node :: "error + 'a \<times> pstate \<Rightarrow> string \<Rightarrow> node option" where
  "result_node r key = (case r of Inl e \<Rightarrow> None | Inr (x, s) \<Rightarrow> map_of (nodes s) key)"

definition result_keys :: "error + (string \<rightharpoonup> node) \<times> warning list \<Rightarrow> string set" where
  "result_keys r = (case r of Inl e \<Rightarrow> {} | Inr (list, ws) \<Rightarrow> dom list)"

definition result_list :: "error + 'a list \<times> pstate \<Rightarrow> 'a list option" where
  "result_list r = (case r of Inl e \<Rightarrow> None | Inr (xs, s) \<Rightarrow> Some xs)"

subsection \<open>Sample inputs\<close>

definition docset0 :: docset where
  "docset0 = \<lparr>
     d_tagname = [], d_name = [], d_doc = None, d_linenr = 0, d_inheritdoc = None,
     d_private = None, d_experimental = None, d_chainable = None, d_see = None,
     d_author = None, d_version = None, d_since = None, d_inherits = None,
     d_allowchild = None, d_define = None, d_params = None, d_return = None,
     d_type = None, d_cancelable = None, d_bubbles = None, d_bound = None \<rparr>"

definition class_Foo :: docset where
  "class_Foo = docset0\<lparr>d_tagname := ''class'', d_name := ''Foo'', d_doc := Some ''A class''\<rparr>"

definition class_Baz :: docset where
  "class_Baz = docset0\<lparr>d_tagname := ''class'', d_name := ''Baz'', d_doc := Some ''Another''\<rparr>"

definition method_bar :: docset where
  "method_bar = docset0\<lparr>d_tagname := ''method'', d_name := ''bar'', d_doc := Some ''Does bar''\<rparr>"

definition event_change :: docset where
  "event_change = docset0\<lparr>d_tagname := ''event'', d_name := ''change'', d_doc := Some ''Fires''\<rparr>"

definition event_unnamed :: docset where
  "event_unnamed = docset0\<lparr>d_tagname := ''event'', d_doc := Some ''Fires''\<rparr>"

definition method_nodoc :: docset where
  "method_nodoc = docset0\<lparr>d_tagname := ''method'', d_name := ''bar''\<rparr>"

definition method_todo :: docset where
  "method_todo = docset0\<lparr>d_tagname := ''method'', d_name := ''baz'', d_doc := Some ''@TODO write''\<rparr>"

definition method_inherited :: docset where
  "method_inherited =
     docset0\<lparr>d_tagname := ''method'', d_name := ''qux'', d_inheritdoc := Some ''Base.qux''\<rparr>"

definition method_unnamed :: docset where
  "method_unnamed = docset0\<lparr>d_tagname := ''method'', d_doc := Some ''Lost its name''\<rparr>"

definition method_unnamed_inherited :: docset where
  "method_unnamed_inherited = docset0\<lparr>d_tagname := ''method'', d_inheritdoc := Some ''Base.qux''\<rparr>"

definition method_with_params :: docset where
  "method_with_params =
     docset0\<lparr>d_tagname := ''method'', d_name := ''add'', d_doc := Some ''Adds'',
       d_params := Some [\<lparr>p_name = ''x'', p_doc = ''first'', p_type = ''string | number'',
                          p_optional = False\<rparr>,
                         \<lparr>p_name = ''y'', p_doc = ''second'', p_type = ''string,number'',
                          p_optional = True\<rparr>],
       d_return := Some \<lparr>r_type = ''[string]'', r_description = ''the sums''\<rparr>\<rparr>"

definition property_size :: docset where
  "property_size =
     docset0\<lparr>d_tagname := ''property'', d_name := ''size'', d_doc := Some ''The size'',
       d_type := Some ''Number''\<rparr>"

definition state_Foo :: pstate where
  "state_Foo = \<lparr>classPrefix = Some ''Foo'', nodes = [], warns = []\<rparr>"

definition method_bar_bound :: docset where
  "method_bar_bound = method_bar\<lparr>d_bound := Some (JBool True)\<rparr>"

definition class_Foo_one :: docset where
  "class_Foo_one = class_Foo\<lparr>d_define := Some ''one''\<rparr>"

definition class_Foo_two :: docset where
  "class_Foo_two = class_Foo\<lparr>d_define := Some ''two''\<rparr>"

definition class_proto :: docset where
  "class_proto = docset0\<lparr>d_tagname := ''class'', d_name := ''__proto__'', d_doc := Some ''Odd''\<rparr>"

definition opts_none :: options where
  "opts_none = \<lparr>globalNS = None\<rparr>"

definition opts_NS :: options where
  "opts_NS = \<lparr>globalNS = Some ''NS''\<rparr>"

section \<open>Properties\<close>

subsection \<open>String primitives\<close>

lemma indexOf_nonneg_iff: "indexOf c s \<ge> 0 \<longleftrightarrow> c \<in> set s"
  by (induction s) (auto simp: Let_def)

lemma indexOf_ge_minus1: "indexOf c s \<ge> -1"
  by (induction s) (auto simp: Let_def)


lemma split_nonempty: "split c s \<noteq> []"
  by (induction s) (auto split: list.splits)

lemma split_length: "length (split c s) = Suc (count_list s c)"
  by (induction s) (auto split: list.splits simp: split_nonempty)

lemma split_no_sep: "seg \<in> set (split c s) \<Longrightarrow> c \<notin> set seg"
  by (induction s arbitrary: seg) (auto split: list.splits if_splits)

subsection \<open>The filter\<close>

text \<open>Claim C8. The filter before name resolution keeps a docset if and only if its
  description is defined and does not begin with \<open>@todo\<close> (in any letter case) or it has an
  \<open>inheritdoc\<close>; all other docsets are dropped, and filtering twice gives what filtering
  once gives.\<close>

theorem filter_docsets_keeps:
  "filter_docsets ds =
     filter (\<lambda>i. (\<exists>doc. d_doc i = Some doc \<and> \<not> todo_test doc) \<or> d_inheritdoc i \<noteq> None) ds
   \<and> filter_docsets (filter_docsets ds) = filter_docsets ds"
proof -
  have "keep_docset i \<longleftrightarrow> ((\<exists>doc. d_doc i = Some doc \<and> \<not> todo_test doc) \<or> d_inheritdoc i \<noteq> None)" for i
    by (cases "d_doc i") (auto simp: keep_docset_def)
  then have "keep_docset = (\<lambda>i. (\<exists>doc. d_doc i = Some doc \<and> \<not> todo_test doc) \<or> d_inheritdoc i \<noteq> None)"
    by (intro ext)
  then have "filter_docsets ds =
     filter (\<lambda>i. (\<exists>doc. d_doc i = Some doc \<and> \<not> todo_test doc) \<or> d_inheritdoc i \<noteq> None) ds"
    unfolding filter_docsets_def by (rule arg_cong)
  moreover have "filter_docsets (filter_docsets ds) = filter_docsets ds"
    unfolding filter_docsets_def by simp
  ultimately show ?thesis by (rule conjI)
qed

text \<open>C8 on four docsets: one with a \<open>@TODO\<close> description, one documented, one without
  description, one with only an \<open>inheritdoc\<close>.\<close>

theorem filter_docsets_keeps_witness:
  "filter_docsets [method_todo, method_bar, method_nodoc, method_inherited]
     = [method_bar, method_inherited]
   \<and> filter_docsets (filter_docsets [method_todo, method_bar, method_nodoc, method_inherited])
     = filter_docsets [method_todo, method_bar, method_nodoc, method_inherited]"
proof -
  let ?L = "[method_todo, method_bar, method_nodoc, method_inherited]"
  let ?P = "\<lambda>i. (\<exists>doc. d_doc i = Some doc \<and> \<not> todo_test doc) \<or> d_inheritdoc i \<noteq> None"
  note h = filter_docsets_keeps [of ?L]
  have p: "\<not> ?P method_todo" "?P method_bar" "\<not> ?P method_nodoc" "?P method_inherited"
    by (simp_all add: method_todo_def method_bar_def method_nodoc_def method_inherited_def
        docset0_def)
  have "filter_docsets ?L = filter ?P ?L"
    using h by (rule conjunct1)
  also have "\<dots> = [method_bar, method_inherited]"
    using p by simp
  finally have a: "filter_docsets ?L = [method_bar, method_inherited]" .
  have b: "filter_docsets (filter_docsets ?L) = filter_docsets ?L"
    using h by (rule conjunct2)
  show ?thesis using a b by (rule conjI)
qed

subsection \<open>Argument types\<close>

text \<open>Claim C6, as the code has it. A parameter type string that contains \<open>|\<close> gives one
  entry per segment, each without its leading and trailing spaces, and no warning. A type
  string with \<open>,\<close> and without \<open>|\<close> gives the warning and an empty types list. Any other
  type string gives itself as the single entry. The types list is empty exactly in the
  comma case.\<close>

theorem make_arg_types:
  "a_types (fst (make_arg memberName p)) =
     (if CHR ''|'' \<in> set (p_type p) then map trim (split CHR ''|'' (p_type p))
      else if CHR '','' \<in> set (p_type p) then []
      else [p_type p])
   \<and> snd (make_arg memberName p) =
     (if CHR ''|'' \<notin> set (p_type p) \<and> CHR '','' \<in> set (p_type p) then [CommaTypes memberName] else [])
   \<and> (a_types (fst (make_arg memberName p)) = [] \<longleftrightarrow>
        CHR ''|'' \<notin> set (p_type p) \<and> CHR '','' \<in> set (p_type p))"
  by (simp add: make_arg_def indexOf_nonneg_iff split_nonempty)

text \<open>C6 on the type string \<open>string | number\<close>.\<close>

theorem make_arg_types_witness:
  "a_types (fst (make_arg ''Foo.add'' \<lparr>p_name = ''x'', p_doc = ''first'', p_type = ''string | number'', p_optional = False\<rparr>))
     = [''string'', ''number'']
   \<and> snd (make_arg ''Foo.add'' \<lparr>p_name = ''x'', p_doc = ''first'', p_type = ''string | number'', p_optional = False\<rparr>) = []"
  using make_arg_types [of "''Foo.add''" "\<lparr>p_name = ''x'', p_doc = ''first'', p_type = ''string | number'', p_optional = False\<rparr>"]
  by (simp add: trim_def)

text \<open>Claim C6 as stated fails on \<open>string,number\<close>: the argument has no type entry at all,
  where the claim has one compound entry and at least one entry in every case.\<close>

theorem comma_types_dropped:
  "make_arg ''Foo.add'' \<lparr>p_name = ''y'', p_doc = ''second'', p_type = ''string,number'', p_optional = True\<rparr>
     = (\<lparr>a_name = ''y'', a_description = ''second'', a_types = [], a_optional = True\<rparr>,
        [CommaTypes ''Foo.add''])"
  by (simp add: make_arg_def)

subsection \<open>Return types\<close>




subsection \<open>Join characters\<close>

text \<open>Claim C5, as the code has it. With a class prefix and a defined \<open>globalNS\<close> option
  the id is the prefix, the join character (\<open>@\<close> for an event, \<open>.\<close> otherwise) and the
  name. Without a class prefix a non-empty \<open>globalNS\<close> becomes the prefix, joined with \<open>@\<close>
  for an event and \<open>.\<close> otherwise. Without a class prefix and without \<open>globalNS\<close> the id is
  the bare name.\<close>

theorem resolve_name_join:
  "(globalNS opts = Some g \<and> prefix = Some c \<longrightarrow>
      resolve_name opts prefix i =
        (Some c, c @ (if d_tagname i = ''event'' then ''@'' else ''.'') @ d_name i))
   \<and> (globalNS opts = Some g \<and> g \<noteq> [] \<and> prefix = None \<longrightarrow>
      resolve_name opts prefix i =
        (Some g, g @ (if d_tagname i = ''event'' then ''@'' else ''.'') @ d_name i))
   \<and> (globalNS opts = None \<and> prefix = None \<longrightarrow>
      resolve_name opts prefix i = (None, d_name i))"
  by (simp add: resolve_name_def globalNS_truthy_def join2_def)

text \<open>C5 on the event \<open>change\<close> and the method \<open>bar\<close>.\<close>

theorem resolve_name_join_witness:
  "resolve_name opts_NS (Some ''Foo'') event_change = (Some ''Foo'', ''Foo@change'')
   \<and> resolve_name opts_NS (Some ''Foo'') method_bar = (Some ''Foo'', ''Foo.bar'')
   \<and> resolve_name opts_NS None method_bar = (Some ''NS'', ''NS.bar'')
   \<and> resolve_name opts_none None method_bar = (None, ''bar'')"
  using resolve_name_join [of opts_NS "''NS''" "Some ''Foo''" "''Foo''" event_change]
    resolve_name_join [of opts_NS "''NS''" "Some ''Foo''" "''Foo''" method_bar]
    resolve_name_join [of opts_NS "''NS''" None "''Foo''" method_bar]
    resolve_name_join [of opts_none "''NS''" None "''Foo''" method_bar]
  by (simp add: opts_NS_def opts_none_def event_change_def method_bar_def docset0_def)

text \<open>Claim C5 as stated fails twice: under the \<open>globalNS\<close> prefix an event is joined with
  \<open>@\<close>, not with \<open>.\<close>; and under the class \<open>Foo\<close> with no \<open>globalNS\<close> option the event
  \<open>change\<close> gets the id \<open>Foochange\<close>.\<close>

theorem event_join_differs:
  "resolve_name opts_NS None event_change = (Some ''NS'', ''NS@change'')
   \<and> resolve_name opts_none (Some ''Foo'') event_change = (Some ''Foo'', ''Foochange'')"
  by (simp add: resolve_name_def globalNS_truthy_def join2_def opts_NS_def opts_none_def
      event_change_def docset0_def)

subsection \<open>Nodes of single docsets\<close>

lemma keep_docset_documented: "keep_docset i \<Longrightarrow> \<not> (d_inheritdoc i = None \<and> d_doc i = None)"
  by (auto simp: keep_docset_def split: if_splits)

lemma make_args_map:
  "make_args memberName ps =
     (map (\<lambda>p. fst (make_arg memberName p)) ps, concat (map (\<lambda>p. snd (make_arg memberName p)) ps))"
  by (induction ps) (auto split: prod.splits)

lemma member_node_result:
  assumes "\<not> (d_inheritdoc i = None \<and> d_doc i = None)"
  shows "\<exists>node. member_node memberName isEvent i =
           Inr (node, case d_params i of None \<Rightarrow> [] | Some ps \<Rightarrow> concat (map (\<lambda>p. snd (make_arg memberName p)) ps))
     \<and> n_id node = memberName
     \<and> n_type node = (if isEvent then ''event'' else ''method'')
     \<and> n_section node = None \<and> n_bound node = None
     \<and> n_arguments node = map_option (map (\<lambda>p. fst (make_arg memberName p))) (d_params i)
     \<and> n_signatures node =
          Some [\<lparr>sg_arguments = n_arguments node, sg_return = Some (make_ret (d_return i)),
                 sg_returns = None\<rparr>]"
  using assms
  by (cases "d_params i") (auto simp: member_node_def createBasicTranslation_def make_args_map Let_def)

lemma value_node_result:
  assumes "\<not> (d_inheritdoc i = None \<and> d_doc i = None)"
  shows "\<exists>node. value_node memberName typ i = Inr node
     \<and> n_id node = memberName \<and> n_type node = typ
     \<and> n_section node = None \<and> n_bound node = None
     \<and> n_arguments node = None
     \<and> n_signatures node =
          Some [\<lparr>sg_arguments = None, sg_return = None, sg_returns = Some [d_type i]\<rparr>]"
  using assms by (auto simp: value_node_def createBasicTranslation_def)

lemma map_of_set_prop:
  "map_of (set_prop k v obj) k' =
     (if k = ''__proto__'' then map_of obj k' else if k' = k then Some v else map_of obj k')"
  by (simp add: set_prop_def AList.update_conv')

text \<open>Claim C10. A method or event docset that passed the filter and has no fatal name
  gives a node assigned to \<open>nodes\<close> under its member name, with one signature. With a
  params list, the node's own \<open>arguments\<close> is the list of argument records of the params,
  in order, and the signature's \<open>arguments\<close> is the same list; without params the node has
  no \<open>arguments\<close> and the signature's \<open>arguments\<close> is undefined.\<close>

theorem member_arguments:
  assumes "d_tagname i = ''method'' \<or> d_tagname i = ''event''"
    and "keep_docset i"
    and "resolve_name opts (classPrefix s) i = (prefix, memberName)"
    and "\<not> fatal_name memberName i"
  shows "\<exists>node ws.
      translate_callback opts file i s =
        Inr (True, s\<lparr>classPrefix := prefix,
                      nodes := set_prop memberName node (nodes s),
                      warns := warns s @ ws\<rparr>)
    \<and> map_of (set_prop memberName node (nodes s)) memberName =
        (if memberName = ''__proto__'' then map_of (nodes s) memberName else Some node)
    \<and> n_arguments node = map_option (map (\<lambda>p. fst (make_arg memberName p))) (d_params i)
    \<and> n_signatures node =
        Some [\<lparr>sg_arguments = n_arguments node, sg_return = Some (make_ret (d_return i)),
               sg_returns = None\<rparr>]"
proof -
  from assms(2) have doc: "\<not> (d_inheritdoc i = None \<and> d_doc i = None)"
    by (rule keep_docset_documented)
  from member_node_result [OF doc, of memberName "d_tagname i = ''event''"]
  obtain node ws where n: "member_node memberName (d_tagname i = ''event'') i = Inr (node, ws)"
    and a: "n_arguments node = map_option (map (\<lambda>p. fst (make_arg memberName p))) (d_params i)"
    and g: "n_signatures node =
        Some [\<lparr>sg_arguments = n_arguments node, sg_return = Some (make_ret (d_return i)),
               sg_returns = None\<rparr>]"
    by blast
  have "translate_callback opts file i s =
        Inr (True, s\<lparr>classPrefix := prefix,
                      nodes := set_prop memberName node (nodes s),
                      warns := warns s @ ws\<rparr>)"
    using assms(1,3,4) n by (simp add: translate_callback_def)
  moreover have "map_of (set_prop memberName node (nodes s)) memberName =
        (if memberName = ''__proto__'' then map_of (nodes s) memberName else Some node)"
    by (simp add: map_of_set_prop)
  ultimately show ?thesis using a g by blast
qed

text \<open>C10 on the method \<open>add\<close> with two parameters, under the class \<open>Foo\<close>.\<close>

theorem member_arguments_witness:
  "\<exists>node ws.
      translate_callback opts_NS ''f.js'' method_with_params state_Foo =
        Inr (True, state_Foo\<lparr>classPrefix := Some ''Foo'',
                      nodes := set_prop ''Foo.add'' node (nodes state_Foo),
                      warns := warns state_Foo @ ws\<rparr>)
    \<and> map_of (set_prop ''Foo.add'' node (nodes state_Foo)) ''Foo.add'' = Some node
    \<and> n_arguments node = map_option (map (\<lambda>p. fst (make_arg ''Foo.add'' p))) (d_params method_with_params)
    \<and> n_signatures node =
        Some [\<lparr>sg_arguments = n_arguments node, sg_return = Some (make_ret (d_return method_with_params)),
               sg_returns = None\<rparr>]"
proof -
  have h1: "d_tagname method_with_params = ''method'' \<or> d_tagname method_with_params = ''event''"
    by (simp add: method_with_params_def docset0_def)
  have h2: "keep_docset method_with_params"
    by (simp add: method_with_params_def docset0_def keep_docset_def)
  have h3: "resolve_name opts_NS (classPrefix state_Foo) method_with_params
      = (Some ''Foo'', ''Foo.add'')"
    by (simp add: method_with_params_def docset0_def state_Foo_def opts_NS_def
        resolve_name_def globalNS_truthy_def join2_def)
  have h4: "\<not> fatal_name ''Foo.add'' method_with_params"
    by (simp add: fatal_name_def lastIndexOf_def)
  from member_arguments [OF h1 h2 h3 h4]
  obtain node ws where
    a: "translate_callback opts_NS ''f.js'' method_with_params state_Foo =
        Inr (True, state_Foo\<lparr>classPrefix := Some ''Foo'',
                      nodes := set_prop ''Foo.add'' node (nodes state_Foo),
                      warns := warns state_Foo @ ws\<rparr>)"
    and b: "map_of (set_prop ''Foo.add'' node (nodes state_Foo)) ''Foo.add'' =
        (if ''Foo.add'' = ''__proto__'' then map_of (nodes state_Foo) ''Foo.add'' else Some node)"
    and c: "n_arguments node
        = map_option (map (\<lambda>p. fst (make_arg ''Foo.add'' p))) (d_params method_with_params)"
    and d: "n_signatures node =
        Some [\<lparr>sg_arguments = n_arguments node, sg_return = Some (make_ret (d_return method_with_params)),
               sg_returns = None\<rparr>]"
    by blast
  from b have b': "map_of (set_prop ''Foo.add'' node (nodes state_Foo)) ''Foo.add'' = Some node"
    by simp
  from a b' c d show ?thesis by blast
qed

text \<open>Claim C9, as the code has it. A property, attribute or binding docset that passed
  the filter and has no fatal name gives a node of that type with exactly one signature;
  its \<open>arguments\<close> is undefined and its \<open>returns\<close> is a list of one entry, the docset's
  \<open>type\<close>. The signature has no \<open>return\<close> record and the node has no \<open>arguments\<close>.\<close>

theorem value_signature:
  assumes "d_tagname i = ''property'' \<or> d_tagname i = ''attribute'' \<or> d_tagname i = ''binding''"
    and "keep_docset i"
    and "resolve_name opts (classPrefix s) i = (prefix, memberName)"
    and "\<not> fatal_name memberName i"
  shows "\<exists>node.
      translate_callback opts file i s =
        Inr (True, s\<lparr>classPrefix := prefix,
                      nodes := set_prop memberName node (nodes s)\<rparr>)
    \<and> map_of (set_prop memberName node (nodes s)) memberName =
        (if memberName = ''__proto__'' then map_of (nodes s) memberName else Some node)
    \<and> n_type node = d_tagname i
    \<and> n_arguments node = None
    \<and> n_signatures node =
        Some [\<lparr>sg_arguments = None, sg_return = None, sg_returns = Some [d_type i]\<rparr>]"
proof -
  from assms(2) have doc: "\<not> (d_inheritdoc i = None \<and> d_doc i = None)"
    by (rule keep_docset_documented)
  from value_node_result [OF doc, of memberName "d_tagname i"]
  obtain node where n: "value_node memberName (d_tagname i) i = Inr node"
    and t: "n_type node = d_tagname i"
    and a: "n_arguments node = None"
    and g: "n_signatures node =
        Some [\<lparr>sg_arguments = None, sg_return = None, sg_returns = Some [d_type i]\<rparr>]"
    by blast
  have "translate_callback opts file i s =
        Inr (True, s\<lparr>classPrefix := prefix,
                      nodes := set_prop memberName node (nodes s)\<rparr>)"
    using assms(1,3,4) n by (auto simp add: translate_callback_def)
  moreover have "map_of (set_prop memberName node (nodes s)) memberName =
        (if memberName = ''__proto__'' then map_of (nodes s) memberName else Some node)"
    by (simp add: map_of_set_prop)
  ultimately show ?thesis using t a g by blast
qed

text \<open>C9 on the property \<open>size\<close> under the class \<open>Foo\<close>.\<close>

theorem value_signature_witness:
  "\<exists>node.
      translate_callback opts_NS ''f.js'' property_size state_Foo =
        Inr (True, state_Foo\<lparr>classPrefix := Some ''Foo'',
                      nodes := set_prop ''Foo.size'' node (nodes state_Foo)\<rparr>)
    \<and> map_of (set_prop ''Foo.size'' node (nodes state_Foo)) ''Foo.size'' = Some node
    \<and> n_type node = d_tagname property_size
    \<and> n_arguments node = None
    \<and> n_signatures node =
        Some [\<lparr>sg_arguments = None, sg_return = None, sg_returns = Some [d_type property_size]\<rparr>]"
proof -
  have h1: "d_tagname property_size = ''property'' \<or> d_tagname property_size = ''attribute''
      \<or> d_tagname property_size = ''binding''"
    by (simp add: property_size_def docset0_def)
  have h2: "keep_docset property_size"
    by (simp add: property_size_def docset0_def keep_docset_def)
  have h3: "resolve_name opts_NS (classPrefix state_Foo) property_size
      = (Some ''Foo'', ''Foo.size'')"
    by (simp add: property_size_def docset0_def state_Foo_def opts_NS_def
        resolve_name_def globalNS_truthy_def join2_def)
  have h4: "\<not> fatal_name ''Foo.size'' property_size"
    by (simp add: fatal_name_def lastIndexOf_def)
  from value_signature [OF h1 h2 h3 h4]
  obtain node where
    a: "translate_callback opts_NS ''f.js'' property_size state_Foo =
        Inr (True, state_Foo\<lparr>classPrefix := Some ''Foo'',
                      nodes := set_prop ''Foo.size'' node (nodes state_Foo)\<rparr>)"
    and b: "map_of (set_prop ''Foo.size'' node (nodes state_Foo)) ''Foo.size'' =
        (if ''Foo.size'' = ''__proto__'' then map_of (nodes state_Foo) ''Foo.size'' else Some node)"
    and c: "n_type node = d_tagname property_size"
    and d: "n_arguments node = None"
    and e: "n_signatures node =
        Some [\<lparr>sg_arguments = None, sg_return = None, sg_returns = Some [d_type property_size]\<rparr>]"
    by blast
  from b have b': "map_of (set_prop ''Foo.size'' node (nodes state_Foo)) ''Foo.size'' = Some node"
    by simp
  from a b' c d e show ?thesis by blast
qed

text \<open>Claim C9 as stated fails on the property \<open>size\<close>: its signature is not of the shape
  \<open>{arguments: Argument[], return: {type, isArray, description}}\<close>, since \<open>arguments\<close> is
  undefined and the type sits in a \<open>returns\<close> list, with no \<open>return\<close> record.\<close>

theorem property_signature_shape:
  "map_option n_signatures
     (result_node (translate_callback opts_NS ''f.js'' property_size state_Foo) ''Foo.size'')
   = Some (Some [\<lparr>sg_arguments = None, sg_return = None, sg_returns = Some [Some ''Number'']\<rparr>])"
  by (simp add: result_node_def translate_callback_def set_prop_def property_size_def docset0_def
      state_Foo_def opts_NS_def resolve_name_def globalNS_truthy_def join2_def fatal_name_def
      lastIndexOf_def value_node_def createBasicTranslation_def)

subsection \<open>The owning class\<close>

lemma class_node_result:
  assumes "is_class i"
  shows "\<exists>node. class_node i = Inr node
     \<and> n_id node = d_name i \<and> n_type node = ''class''
     \<and> n_section node = None \<and> n_bound node = None
     \<and> n_inherits node = (if d_inherits i = Some [] then None else d_inherits i)
     \<and> n_allowchild node = d_allowchild i
     \<and> n_define node = d_define i"
  using assms
  by (cases "d_inherits i") (auto simp: is_class_def class_node_def createBasicTranslation_def)

lemma class_callback_other: "\<not> is_class i \<Longrightarrow> class_callback i s = Inr (False, s)"
  by (simp add: class_callback_def)

lemma class_callback_class:
  "class_node i = Inr node \<Longrightarrow> is_class i \<Longrightarrow>
   class_callback i s =
     Inr (True, s\<lparr>classPrefix := Some (d_name i),
                   nodes := set_prop (d_name i) node (nodes s)\<rparr>)"
  by (simp add: class_callback_def)

text \<open>The state after the first pass, key by key: a key that no class docset is named
  by, and the key \<open>__proto__\<close>, are as before; any other key holds the node of the last
  class docset of that name.\<close>

lemma class_pass_general:
  "\<exists>s'. reject class_callback merged s = Inr (filter (\<lambda>i. \<not> is_class i) merged, s')
     \<and> classPrefix s' =
          (case filter is_class merged of
             [] \<Rightarrow> classPrefix s
           | c # cs \<Rightarrow> Some (d_name (last (c # cs))))
     \<and> warns s' = warns s
     \<and> (\<forall>k. map_of (nodes s') k =
          (case filter (\<lambda>i. is_class i \<and> d_name i = k) merged of
             [] \<Rightarrow> map_of (nodes s) k
           | c # cs \<Rightarrow>
               if k = ''__proto__'' then map_of (nodes s) k
               else Some (projr (class_node (last (c # cs))))))"
proof (induction merged arbitrary: s)
  case Nil
  show ?case by simp
next
  case (Cons i merged)
  show ?case
  proof (cases "is_class i")
    case False
    from Cons.IH [of s] obtain s' where
      r: "reject class_callback merged s = Inr (filter (\<lambda>i. \<not> is_class i) merged, s')"
      and p: "classPrefix s' =
          (case filter is_class merged of
             [] \<Rightarrow> classPrefix s
           | c # cs \<Rightarrow> Some (d_name (last (c # cs))))"
      and w: "warns s' = warns s"
      and k: "\<forall>k. map_of (nodes s') k =
          (case filter (\<lambda>i. is_class i \<and> d_name i = k) merged of
             [] \<Rightarrow> map_of (nodes s) k
           | c # cs \<Rightarrow>
               if k = ''__proto__'' then map_of (nodes s) k
               else Some (projr (class_node (last (c # cs)))))"
      by blast
    have "reject class_callback (i # merged) s
        = Inr (filter (\<lambda>i. \<not> is_class i) (i # merged), s')"
      using False r by (simp add: class_callback_other)
    moreover have "classPrefix s' =
          (case filter is_class (i # merged) of
             [] \<Rightarrow> classPrefix s
           | c # cs \<Rightarrow> Some (d_name (last (c # cs))))"
      using False p by simp
    moreover have "\<forall>k. map_of (nodes s') k =
          (case filter (\<lambda>i. is_class i \<and> d_name i = k) (i # merged) of
             [] \<Rightarrow> map_of (nodes s) k
           | c # cs \<Rightarrow>
               if k = ''__proto__'' then map_of (nodes s) k
               else Some (projr (class_node (last (c # cs)))))"
      using False k by simp
    ultimately show ?thesis using w by blast
  next
    case True
    from class_node_result [OF True] obtain node where n: "class_node i = Inr node"
      by blast
    let ?s1 = "s\<lparr>classPrefix := Some (d_name i), nodes := set_prop (d_name i) node (nodes s)\<rparr>"
    from Cons.IH [of ?s1] obtain s' where
      r: "reject class_callback merged ?s1 = Inr (filter (\<lambda>i. \<not> is_class i) merged, s')"
      and p: "classPrefix s' =
          (case filter is_class merged of
             [] \<Rightarrow> classPrefix ?s1
           | c # cs \<Rightarrow> Some (d_name (last (c # cs))))"
      and w: "warns s' = warns ?s1"
      and k: "\<forall>k. map_of (nodes s') k =
          (case filter (\<lambda>i. is_class i \<and> d_name i = k) merged of
             [] \<Rightarrow> map_of (nodes ?s1) k
           | c # cs \<Rightarrow>
               if k = ''__proto__'' then map_of (nodes ?s1) k
               else Some (projr (class_node (last (c # cs)))))"
      by blast
    have "reject class_callback (i # merged) s
        = Inr (filter (\<lambda>i. \<not> is_class i) (i # merged), s')"
      using True r by (simp add: class_callback_class [OF n True])
    moreover have "classPrefix s' =
          (case filter is_class (i # merged) of
             [] \<Rightarrow> classPrefix s
           | c # cs \<Rightarrow> Some (d_name (last (c # cs))))"
      using True p by (simp split: list.splits)
    moreover have "\<forall>k. map_of (nodes s') k =
          (case filter (\<lambda>i. is_class i \<and> d_name i = k) (i # merged) of
             [] \<Rightarrow> map_of (nodes s) k
           | c # cs \<Rightarrow>
               if k = ''__proto__'' then map_of (nodes s) k
               else Some (projr (class_node (last (c # cs)))))"
    proof
      fix k
      show "map_of (nodes s') k =
          (case filter (\<lambda>i. is_class i \<and> d_name i = k) (i # merged) of
             [] \<Rightarrow> map_of (nodes s) k
           | c # cs \<Rightarrow>
               if k = ''__proto__'' then map_of (nodes s) k
               else Some (projr (class_node (last (c # cs)))))"
        using k [rule_format, of k] True n
        by (simp add: map_of_set_prop split: list.splits)
    qed
    moreover have "warns s' = warns s" using w by simp
    ultimately show ?thesis by blast
  qed
qed

text \<open>Claim C4, as the code has it. Every class-tagged docset with a defined \<open>doc\<close> (the
  empty string too) is removed from the working list, and \<open>classPrefix\<close> is the name of the
  last of these docsets. Of the \<open>nodes\<close> object, a key that none of these docsets is named
  by is as before, and so is the key \<open>__proto__\<close>; under any other key lies the class node
  of the last of the docsets of that name: its id is the name, its type is \<open>class\<close>, and
  it has that docset's \<open>inherits\<close> (when not empty), \<open>allowchild\<close> and \<open>define\<close>. With
  exactly one such docset this is the single class node and the owning class.\<close>

theorem class_pass:
  "\<exists>s'. reject class_callback merged s = Inr (filter (\<lambda>i. \<not> is_class i) merged, s')
     \<and> classPrefix s' =
          (case filter is_class merged of
             [] \<Rightarrow> classPrefix s
           | c # cs \<Rightarrow> Some (d_name (last (c # cs))))
     \<and> warns s' = warns s
     \<and> (\<forall>k. case filter (\<lambda>i. is_class i \<and> d_name i = k) merged of
               [] \<Rightarrow> map_of (nodes s') k = map_of (nodes s) k
             | c # cs \<Rightarrow>
                 if k = ''__proto__'' then map_of (nodes s') k = map_of (nodes s) k
                 else \<exists>node. class_node (last (c # cs)) = Inr node
                        \<and> map_of (nodes s') k = Some node
                        \<and> n_id node = k \<and> n_type node = ''class''
                        \<and> n_inherits node =
                            (if d_inherits (last (c # cs)) = Some [] then None
                             else d_inherits (last (c # cs)))
                        \<and> n_allowchild node = d_allowchild (last (c # cs))
                        \<and> n_define node = d_define (last (c # cs)))"
proof -
  from class_pass_general [of merged s] obtain s' where
    r: "reject class_callback merged s = Inr (filter (\<lambda>i. \<not> is_class i) merged, s')"
    and p: "classPrefix s' =
          (case filter is_class merged of
             [] \<Rightarrow> classPrefix s
           | c # cs \<Rightarrow> Some (d_name (last (c # cs))))"
    and w: "warns s' = warns s"
    and m: "\<forall>k. map_of (nodes s') k =
          (case filter (\<lambda>i. is_class i \<and> d_name i = k) merged of
             [] \<Rightarrow> map_of (nodes s) k
           | c # cs \<Rightarrow>
               if k = ''__proto__'' then map_of (nodes s) k
               else Some (projr (class_node (last (c # cs)))))"
    by blast
  have "case filter (\<lambda>i. is_class i \<and> d_name i = k) merged of
               [] \<Rightarrow> map_of (nodes s') k = map_of (nodes s) k
             | c # cs \<Rightarrow>
                 if k = ''__proto__'' then map_of (nodes s') k = map_of (nodes s) k
                 else \<exists>node. class_node (last (c # cs)) = Inr node
                        \<and> map_of (nodes s') k = Some node
                        \<and> n_id node = k \<and> n_type node = ''class''
                        \<and> n_inherits node =
                            (if d_inherits (last (c # cs)) = Some [] then None
                             else d_inherits (last (c # cs)))
                        \<and> n_allowchild node = d_allowchild (last (c # cs))
                        \<and> n_define node = d_define (last (c # cs))" for k
  proof (cases "filter (\<lambda>i. is_class i \<and> d_name i = k) merged")
    case Nil
    with m [rule_format, of k] show ?thesis by simp
  next
    case (Cons c cs)
    have "last (c # cs) \<in> set (filter (\<lambda>i. is_class i \<and> d_name i = k) merged)"
      unfolding Cons by (rule last_in_set) simp
    then have l: "is_class (last (c # cs))" "d_name (last (c # cs)) = k"
      by simp_all
    from class_node_result [OF l(1)] obtain node where
      n: "class_node (last (c # cs)) = Inr node"
      and f: "n_id node = d_name (last (c # cs))" "n_type node = ''class''"
        "n_inherits node =
           (if d_inherits (last (c # cs)) = Some [] then None else d_inherits (last (c # cs)))"
        "n_allowchild node = d_allowchild (last (c # cs))"
        "n_define node = d_define (last (c # cs))"
      by blast
    from m [rule_format, of k] Cons n
    have "map_of (nodes s') k = (if k = ''__proto__'' then map_of (nodes s) k else Some node)"
      by simp
    with Cons n f l(2) show ?thesis by auto
  qed
  with r p w show ?thesis by blast
qed

text \<open>C4 on the list of two class docsets \<open>Foo\<close> with \<open>define\<close> values \<open>one\<close> and \<open>two\<close>
  around the method \<open>bar\<close>: the method stays, and the node under \<open>Foo\<close> has the \<open>define\<close> of
  the second docset.\<close>

theorem class_pass_witness:
  "result_list (reject class_callback [class_Foo_one, method_bar, class_Foo_two] init_state)
     = Some [method_bar]
   \<and> map_option classPrefix
       (result_state (reject class_callback [class_Foo_one, method_bar, class_Foo_two] init_state))
     = Some (Some ''Foo'')
   \<and> map_option n_define
       (result_node (reject class_callback [class_Foo_one, method_bar, class_Foo_two] init_state)
          ''Foo'')
     = Some (Some ''two'')"
proof -
  let ?L = "[class_Foo_one, method_bar, class_Foo_two]"
  have e: "is_class class_Foo_one" "\<not> is_class method_bar" "is_class class_Foo_two"
    by (simp_all add: is_class_def class_Foo_one_def class_Foo_two_def class_Foo_def
        method_bar_def docset0_def)
  have n: "d_name class_Foo_one = ''Foo''" "d_name class_Foo_two = ''Foo''"
    "d_name method_bar = ''bar''" "d_define class_Foo_two = Some ''two''"
    by (simp_all add: class_Foo_one_def class_Foo_two_def class_Foo_def method_bar_def
        docset0_def)
  from class_pass [of ?L init_state] obtain s' where
    r: "reject class_callback ?L init_state = Inr (filter (\<lambda>i. \<not> is_class i) ?L, s')"
    and p: "classPrefix s' =
          (case filter is_class ?L of
             [] \<Rightarrow> classPrefix init_state
           | c # cs \<Rightarrow> Some (d_name (last (c # cs))))"
    and m: "\<forall>k. case filter (\<lambda>i. is_class i \<and> d_name i = k) ?L of
               [] \<Rightarrow> map_of (nodes s') k = map_of (nodes init_state) k
             | c # cs \<Rightarrow>
                 if k = ''__proto__'' then map_of (nodes s') k = map_of (nodes init_state) k
                 else \<exists>node. class_node (last (c # cs)) = Inr node
                        \<and> map_of (nodes s') k = Some node
                        \<and> n_id node = k \<and> n_type node = ''class''
                        \<and> n_inherits node =
                            (if d_inherits (last (c # cs)) = Some [] then None
                             else d_inherits (last (c # cs)))
                        \<and> n_allowchild node = d_allowchild (last (c # cs))
                        \<and> n_define node = d_define (last (c # cs))"
    by blast
  have f1: "filter (\<lambda>i. \<not> is_class i) ?L = [method_bar]"
    using e by simp
  have f2: "filter is_class ?L = [class_Foo_one, class_Foo_two]"
    using e by simp
  have f3: "filter (\<lambda>i. is_class i \<and> d_name i = ''Foo'') ?L = [class_Foo_one, class_Foo_two]"
    using e n by simp
  from p f2 n have p': "classPrefix s' = Some ''Foo''"
    by simp
  from r f1 have r': "reject class_callback ?L init_state = Inr ([method_bar], s')"
    by simp
  from m [rule_format, of "''Foo''"] f3 n(4) obtain node where
    "map_of (nodes s') ''Foo'' = Some node" "n_define node = Some ''two''"
    by auto
  then show ?thesis
    unfolding r' using p' by (simp add: result_list_def result_state_def result_node_def)
qed

text \<open>Claim C4 as stated fails on two class docsets \<open>Foo\<close> and \<open>Baz\<close>: the later one
  overrides \<open>classPrefix\<close>, both are removed and both become class nodes.\<close>

theorem last_class_wins:
  "map_option classPrefix (result_state (reject class_callback [class_Foo, class_Baz] init_state))
     = Some (Some ''Baz'')
   \<and> result_list (reject class_callback [class_Foo, class_Baz] init_state) = Some []
   \<and> map_option n_type (result_node (reject class_callback [class_Foo, class_Baz] init_state) ''Foo'')
     = Some ''class''
   \<and> map_option n_type (result_node (reject class_callback [class_Foo, class_Baz] init_state) ''Baz'')
     = Some ''class''"
  by (simp add: result_state_def result_list_def result_node_def class_callback_def is_class_def
      set_prop_def class_node_def createBasicTranslation_def class_Foo_def class_Baz_def
      docset0_def init_state_def)

text \<open>A class docset named \<open>__proto__\<close> sets \<open>classPrefix\<close> and is removed from the list, but
  leaves no own key in \<open>nodes\<close>.\<close>

lemma class_proto_example:
  "map_option classPrefix (result_state (reject class_callback [class_proto] init_state))
     = Some (Some ''__proto__'')
   \<and> result_list (reject class_callback [class_proto] init_state) = Some []
   \<and> map_option nodes (result_state (reject class_callback [class_proto] init_state)) = Some []"
  by (simp add: result_state_def result_list_def class_callback_def is_class_def
      set_prop_def class_node_def createBasicTranslation_def class_proto_def
      docset0_def init_state_def)

subsection \<open>The clone of a bound method in the last pass\<close>

lemma find_rev_upt:
  "a \<le> e \<Longrightarrow> e < b \<Longrightarrow> P e \<Longrightarrow> (\<forall>j. e < j \<and> j < b \<longrightarrow> \<not> P j)
   \<Longrightarrow> List.find P (rev [a..<b]) = Some e"
proof (induction b)
  case 0
  then show ?case by simp
next
  case (Suc b)
  show ?case
  proof (cases "e = b")
    case True
    with Suc.prems show ?thesis by simp
  next
    case False
    with Suc.prems have "e < b" "\<not> P b" "a \<le> b" by auto
    with Suc show ?thesis by simp
  qed
qed

lemma replace_bound_owner:
  assumes "owner \<noteq> []" "nm \<noteq> []" "list_all line_char (owner @ nm)" "CHR ''.'' \<notin> set nm"
  shows "replace_bound (owner @ ''.'' @ nm) = owner @ ''#'' @ nm"
proof -
  let ?str = "owner @ ''.'' @ nm"
  let ?n = "length owner"
  let ?P = "\<lambda>e. dot_plus (take (e - 0) (drop 0 ?str)) \<and> ?str ! e = CHR ''.''
            \<and> dot_plus (drop (Suc e) ?str)"
  have pn: "?P ?n"
    using assms by (simp add: dot_plus_def nth_append)
  have above: "\<forall>j. ?n < j \<and> j < length ?str \<longrightarrow> \<not> ?P j"
  proof (intro allI impI)
    fix j assume j: "?n < j \<and> j < length ?str"
    then have "?str ! j = nm ! (j - Suc ?n)"
      by (simp add: nth_append nth_Cons')
    moreover from j have "nm ! (j - Suc ?n) \<in> set nm"
      by (intro nth_mem) auto
    ultimately show "\<not> ?P j" using assms(4) by metis
  qed
  have "Suc 0 \<le> ?n" "?n < length ?str"
    using assms(1) by (auto simp: Suc_le_eq)
  then have m0: "bound_match_end ?str 0 = Some ?n"
    unfolding bound_match_end_def using pn above by (intro find_rev_upt) auto
  have "0 < length ?str" by simp
  then have "[0 ..< length ?str] = 0 # [Suc 0 ..< length ?str]"
    by (rule upt_conv_Cons)
  then have "bound_exec ?str = Some (0, ?n)"
    using m0 by (simp add: bound_exec_def)
  then show ?thesis by (simp add: replace_bound_def)
qed

lemma replace_bound_bar: "replace_bound ''bar'' = ''bar''"
  by code_simp

lemma dotted_not_proto: "sec @ CHR ''.'' # k \<noteq> ''__proto__''"
proof
  assume a: "sec @ CHR ''.'' # k = ''__proto__''"
  have "CHR ''.'' \<in> set (sec @ CHR ''.'' # k)" by simp
  then have "CHR ''.'' \<in> set ''__proto__''" unfolding a .
  then show False by simp
qed

lemma set_key_dotted: "set_key (sec @ CHR ''.'' # k) v list = list(sec @ CHR ''.'' # k \<mapsto> v)"
  using dotted_not_proto [of sec k] by (simp add: set_key_def)

text \<open>What the last pass does with a method node that has a truthy \<open>bound\<close> and an id
  \<open>Owner.name\<close>: the node, with the fields the pass sets, is stored with the clone's id as
  its \<open>bound\<close>, and its copy with the id \<open>Owner#name\<close> and the node's id as \<open>bound\<close> is stored
  under the key of that id.\<close>

lemma post_node_bound_clone:
  assumes "n_type node = ''method''" and "truthy (n_bound node)"
    and "n_id node = owner @ ''.'' @ nm" and "owner \<noteq> []" and "nm \<noteq> []"
    and "list_all line_char (owner @ nm)" and "CHR ''.'' \<notin> set nm"
  shows "post_node file node list =
      (list(section_or_empty node @ ''.'' @ owner @ ''.'' @ nm \<mapsto>
              node\<lparr>n_aliases := Some [], n_children := Some [], n_file := Some file,
                   n_bound := Some (JStr (owner @ ''#'' @ nm))\<rparr>))
        (section_or_empty node @ ''.'' @ owner @ ''#'' @ nm \<mapsto>
              node\<lparr>n_aliases := Some [], n_children := Some [], n_file := Some file,
                   n_id := owner @ ''#'' @ nm,
                   n_bound := Some (JStr (owner @ ''.'' @ nm))\<rparr>)"
proof -
  have rb: "replace_bound (n_id node) = owner @ ''#'' @ nm"
    unfolding assms(3) using assms(4-7) by (rule replace_bound_owner)
  show ?thesis
    using assms(1,2,3) rb
    by (simp add: post_node_def Let_def section_or_empty_def set_key_dotted)
qed

subsection \<open>Fatal names\<close>

text \<open>The test compares the last index of a dot with the last index of the name: it holds
  for the empty name and for a name that ends in a dot. A docset other than an event with
  an empty name and no \<open>inheritdoc\<close> stops the run when \<open>globalNS\<close> is defined; a docset
  with \<open>inheritdoc\<close> never does.\<close>

lemma lastIndexOf_end_iff:
  "lastIndexOf c s = int (length s) - 1 \<longleftrightarrow> s = [] \<or> last s = c"
proof (cases "s = []")
  case True
  then show ?thesis by (simp add: lastIndexOf_def)
next
  case False
  then obtain x xs where r: "rev s = x # xs" by (cases "rev s") auto
  with False have l: "last s = x" by (metis last_rev list.sel(1) rev_rev_ident rev.simps(1) hd_rev)
  have g: "indexOf c xs \<ge> -1" by (rule indexOf_ge_minus1)
  show ?thesis
    using False r l g by (auto simp: lastIndexOf_def Let_def)
qed

lemma fatal_name_iff:
  "fatal_name memberName i \<longleftrightarrow> (memberName = [] \<or> last memberName = CHR ''.'') \<and> d_inheritdoc i = None"
  by (simp add: fatal_name_def lastIndexOf_end_iff)

lemma unnamed_member_fatal:
  assumes "d_tagname i \<noteq> ''event''" and "d_name i = []" and "d_inheritdoc i = None"
    and "globalNS opts = Some g"
  shows "translate_callback opts file i s = Inl (FatalName i)"
proof -
  obtain prefix memberName where r: "resolve_name opts (classPrefix s) i = (prefix, memberName)"
    by (cases "resolve_name opts (classPrefix s) i")
  with assms(1,2,4) have "memberName \<noteq> [] \<and> last memberName = CHR ''.''"
    by (auto simp: resolve_name_def Let_def globalNS_truthy_def join2_def
        split: if_splits option.splits)
  with assms(3) have "fatal_name memberName i"
    by (simp add: fatal_name_iff)
  then show ?thesis
    unfolding translate_callback_def r by simp
qed

lemma inheritdoc_not_fatal:
  assumes "d_inheritdoc i \<noteq> None"
  shows "\<exists>s'. translate_callback opts file i s = Inr (True, s')"
proof -
  obtain prefix memberName where r: "resolve_name opts (classPrefix s) i = (prefix, memberName)"
    by (cases "resolve_name opts (classPrefix s) i")
  from assms have doc: "\<not> (d_inheritdoc i = None \<and> d_doc i = None)" by simp
  from member_node_result [OF doc, of memberName "d_tagname i = ''event''"]
  obtain node ws where m: "member_node memberName (d_tagname i = ''event'') i = Inr (node, ws)"
    by blast
  from value_node_result [OF doc, of memberName "d_tagname i"]
  obtain vnode where v: "value_node memberName (d_tagname i) i = Inr vnode"
    by blast
  from assms have nf: "\<not> fatal_name memberName i" by (simp add: fatal_name_def)
  show ?thesis
    unfolding translate_callback_def r using nf m v by simp
qed

lemma unnamed_method_fatal_example:
  "process_jsd [class_Foo, method_unnamed] ''f.js'' opts_NS = Inl (FatalName method_unnamed)"
  by (simp add: process_jsd_def init_state_def class_Foo_def method_unnamed_def
      docset0_def opts_NS_def class_callback_def is_class_def class_node_def
      createBasicTranslation_def filter_docsets_def keep_docset_def translate_callback_def
      resolve_name_def globalNS_truthy_def join2_def fatal_name_def lastIndexOf_def)

lemma unnamed_inherited_example:
  "map_option n_inheritdoc
     (lookup_result (process_jsd [class_Foo, method_unnamed_inherited] ''f.js'' opts_NS) ''.Foo.'')
   = Some (Some ''Base.qux'')"
  by (simp add: lookup_result_def process_jsd_def init_state_def class_Foo_def
      method_unnamed_inherited_def docset0_def opts_NS_def class_callback_def is_class_def
      class_node_def createBasicTranslation_def filter_docsets_def keep_docset_def
      translate_callback_def resolve_name_def globalNS_truthy_def join2_def fatal_name_def
      lastIndexOf_def member_node_def make_ret_def post_process_def js_enum_def
      is_array_index_def is_digit_def num_of_def post_node_def set_key_def set_prop_def
      section_or_empty_def)

text \<open>Claim C2 at an event docset with an empty name and no \<open>inheritdoc\<close>, under the class
  \<open>Foo\<close> with \<open>globalNS\<close> defined: the computed name \<open>Foo@\<close> ends at the join character of
  events, the test for a trailing dot does not hold, and the run delivers a map with the
  event node \<open>Foo@\<close> where the claim has a fatal stop.\<close>

theorem unnamed_event_not_fatal:
  "resolve_name opts_NS (Some ''Foo'') event_unnamed = (Some ''Foo'', ''Foo@'')
   \<and> d_inheritdoc event_unnamed = None
   \<and> \<not> fatal_name ''Foo@'' event_unnamed
   \<and> map_option n_type
       (lookup_result (process_jsd [class_Foo, event_unnamed] ''f.js'' opts_NS) ''.Foo@'')
     = Some ''event''"
  by (simp add: lookup_result_def process_jsd_def init_state_def class_Foo_def event_unnamed_def
      docset0_def opts_NS_def class_callback_def is_class_def class_node_def
      createBasicTranslation_def filter_docsets_def keep_docset_def translate_callback_def
      resolve_name_def globalNS_truthy_def join2_def fatal_name_def lastIndexOf_def
      member_node_def make_ret_def post_process_def js_enum_def is_array_index_def is_digit_def
      num_of_def post_node_def set_key_def set_prop_def section_or_empty_def)

subsection \<open>The whole run\<close>

lemma set_update_cases:
  "kv \<in> set (AList.update k v al) \<Longrightarrow> kv = (k, v) \<or> kv \<in> set al"
  by (induction al) (auto split: if_splits)

lemma plain_nodes_update:
  assumes "plain_nodes obj" and "plain_node k n"
  shows "plain_nodes (AList.update k n obj)"
proof -
  from assms(1) have "distinct (map fst (AList.update k n obj))"
    by (simp add: plain_nodes_def distinct_update)
  moreover have "plain_node (fst kv) (snd kv)" if "kv \<in> set (AList.update k n obj)" for kv
    using set_update_cases [OF that] assms by (auto simp: plain_nodes_def list_all_iff)
  ultimately show ?thesis by (simp add: plain_nodes_def list_all_iff)
qed

lemma plain_nodes_set_prop:
  "plain_nodes obj \<Longrightarrow> plain_node k n \<Longrightarrow> plain_nodes (set_prop k n obj)"
  by (simp add: set_prop_def plain_nodes_update)

lemma class_pass_plain:
  "plain_nodes (nodes s) \<Longrightarrow> reject class_callback merged s = Inr (r, s')
   \<Longrightarrow> plain_nodes (nodes s')"
proof (induction merged arbitrary: s r)
  case Nil
  then show ?case by simp
next
  case (Cons i merged)
  show ?case
  proof (cases "is_class i")
    case False
    with Cons.prems(2) obtain r' where "reject class_callback merged s = Inr (r', s')"
      by (auto simp: class_callback_other split: sum.splits)
    with Cons.IH Cons.prems(1) show ?thesis by blast
  next
    case True
    from class_node_result [OF True] obtain node where n: "class_node i = Inr node"
      and f: "n_id node = d_name i" "n_type node = ''class''" "n_section node = None"
        "n_bound node = None"
      by blast
    let ?s1 = "s\<lparr>classPrefix := Some (d_name i), nodes := set_prop (d_name i) node (nodes s)\<rparr>"
    from f have "plain_node (d_name i) node" by (simp add: plain_node_def)
    with Cons.prems(1) have p: "plain_nodes (nodes ?s1)"
      by (simp add: plain_nodes_set_prop)
    from Cons.prems(2) obtain r' where "reject class_callback merged ?s1 = Inr (r', s')"
      by (auto simp: class_callback_class [OF n True] split: sum.splits)
    with Cons.IH p show ?thesis by blast
  qed
qed

lemma resolve_name_prefixed:
  "globalNS opts = Some g \<Longrightarrow>
   resolve_name opts (Some c) i =
     (Some c, c @ (if d_tagname i = ''event'' then ''@'' else ''.'') @ d_name i)"
  by (simp add: resolve_name_def globalNS_truthy_def join2_def)

lemma joined_not_proto:
  "c @ (if e then ''@'' else ''.'') @ n \<noteq> ''__proto__''"
proof
  assume a: "c @ (if e then ''@'' else ''.'') @ n = ''__proto__''"
  have "(if e then CHR ''@'' else CHR ''.'') \<in> set (c @ (if e then ''@'' else ''.'') @ n)"
    by simp
  then have "(if e then CHR ''@'' else CHR ''.'') \<in> set ''__proto__''"
    unfolding a .
  then show False by (simp split: if_splits)
qed

lemma translate_step:
  assumes "keep_docset i" and "classPrefix s = Some c" and "globalNS opts = Some g"
    and "\<not> fatal_name (snd (resolve_name opts (Some c) i)) i"
  shows "\<exists>s'. translate_callback opts file i s = Inr (True, s') \<and> classPrefix s' = Some c
    \<and> (if d_tagname i \<in> {''method'', ''event'', ''property'', ''attribute'', ''binding''}
        then \<exists>node. nodes s' = AList.update (snd (resolve_name opts (Some c) i)) node (nodes s)
               \<and> plain_node (snd (resolve_name opts (Some c) i)) node
               \<and> n_type node = d_tagname i
        else nodes s' = nodes s)"
proof -
  let ?mn = "snd (resolve_name opts (Some c) i)"
  have r: "resolve_name opts (classPrefix s) i = (Some c, ?mn)"
    using assms(2,3) by (simp add: resolve_name_prefixed)
  have "?mn \<noteq> ''__proto__''"
    unfolding resolve_name_prefixed [OF assms(3)] snd_conv by (rule joined_not_proto)
  then have sp: "set_prop ?mn node obj = AList.update ?mn node obj" for node :: node and obj
    by (simp add: set_prop_def)
  from assms(1) have doc: "\<not> (d_inheritdoc i = None \<and> d_doc i = None)"
    by (rule keep_docset_documented)
  consider (member) "d_tagname i = ''method'' \<or> d_tagname i = ''event''"
    | (val) "d_tagname i = ''property'' \<or> d_tagname i = ''attribute'' \<or> d_tagname i = ''binding''"
    | (other) "d_tagname i \<notin> {''method'', ''event'', ''property'', ''attribute'', ''binding''}"
    by auto
  then show ?thesis
  proof cases
    case member
    from member_node_result [OF doc, of ?mn "d_tagname i = ''event''"]
    obtain node ws where n: "member_node ?mn (d_tagname i = ''event'') i = Inr (node, ws)"
      and f: "n_id node = ?mn" "n_type node = (if d_tagname i = ''event'' then ''event'' else ''method'')"
        "n_section node = None" "n_bound node = None"
      by blast
    from f member have p: "plain_node ?mn node" "n_type node = d_tagname i"
      by (auto simp: plain_node_def)
    have "translate_callback opts file i s =
        Inr (True, s\<lparr>classPrefix := Some c, nodes := AList.update ?mn node (nodes s),
                      warns := warns s @ ws\<rparr>)"
      unfolding translate_callback_def r using assms(4) member n by (simp add: sp)
    with p member show ?thesis by auto
  next
    case val
    from value_node_result [OF doc, of ?mn "d_tagname i"]
    obtain node where n: "value_node ?mn (d_tagname i) i = Inr node"
      and f: "n_id node = ?mn" "n_type node = d_tagname i"
        "n_section node = None" "n_bound node = None"
      by blast
    from f val have p: "plain_node ?mn node"
      by (auto simp: plain_node_def)
    have "translate_callback opts file i s =
        Inr (True, s\<lparr>classPrefix := Some c, nodes := AList.update ?mn node (nodes s)\<rparr>)"
      unfolding translate_callback_def r using assms(4) val n by (auto simp: sp)
    with p f(2) val show ?thesis by auto
  next
    case other
    have "translate_callback opts file i s =
        Inr (True, s\<lparr>classPrefix := Some c, warns := warns s @ [UnknownTag (d_tagname i) file]\<rparr>)"
      unfolding translate_callback_def r using assms(4) other by simp
    with other show ?thesis by simp
  qed
qed

lemma translate_pass:
  assumes "globalNS opts = Some g"
  shows "list_all (\<lambda>i. keep_docset i \<and> \<not> fatal_name (snd (resolve_name opts (Some c) i)) i) ds
    \<Longrightarrow> classPrefix s = Some c \<Longrightarrow> plain_nodes (nodes s)
    \<Longrightarrow> \<exists>s'. reject (translate_callback opts file) ds s = Inr ([], s')
      \<and> plain_nodes (nodes s')
      \<and> (\<forall>k. k \<notin> (\<lambda>i. snd (resolve_name opts (Some c) i)) `
                 {i \<in> set ds. d_tagname i \<in> {''method'', ''event'', ''property'', ''attribute'', ''binding''}}
            \<longrightarrow> map_of (nodes s') k = map_of (nodes s) k)
      \<and> (\<forall>i\<in>set ds. d_tagname i \<in> {''method'', ''event'', ''property'', ''attribute'', ''binding''} \<longrightarrow>
            (\<exists>j\<in>set ds. \<exists>node.
               d_tagname j \<in> {''method'', ''event'', ''property'', ''attribute'', ''binding''}
               \<and> snd (resolve_name opts (Some c) j) = snd (resolve_name opts (Some c) i)
               \<and> map_of (nodes s') (snd (resolve_name opts (Some c) i)) = Some node
               \<and> n_type node = d_tagname j))"
proof (induction ds arbitrary: s)
  case Nil
  then show ?case by simp
next
  case (Cons i ds)
  let ?K = "{''method'', ''event'', ''property'', ''attribute'', ''binding''}"
  let ?mn = "\<lambda>i. snd (resolve_name opts (Some c) i)"
  from Cons.prems(1) have hd: "keep_docset i" "\<not> fatal_name (?mn i) i"
    and tl: "list_all (\<lambda>i. keep_docset i \<and> \<not> fatal_name (?mn i) i) ds"
    by simp_all
  from translate_step [OF hd(1) Cons.prems(2) assms hd(2), of "file"]
  obtain s1 where t: "translate_callback opts file i s = Inr (True, s1)"
    and p1: "classPrefix s1 = Some c"
    and n1: "if d_tagname i \<in> ?K
        then \<exists>node. nodes s1 = AList.update (?mn i) node (nodes s)
               \<and> plain_node (?mn i) node \<and> n_type node = d_tagname i
        else nodes s1 = nodes s"
    by blast
  have pl1: "plain_nodes (nodes s1)"
    using n1 Cons.prems(3) by (auto simp: plain_nodes_update split: if_splits)
  from Cons.IH [OF tl p1 pl1] obtain s' where
    r: "reject (translate_callback opts file) ds s1 = Inr ([], s')"
    and pl: "plain_nodes (nodes s')"
    and k: "\<forall>k. k \<notin> ?mn ` {i \<in> set ds. d_tagname i \<in> ?K} \<longrightarrow> map_of (nodes s') k = map_of (nodes s1) k"
    and c: "\<forall>i\<in>set ds. d_tagname i \<in> ?K \<longrightarrow>
            (\<exists>j\<in>set ds. \<exists>node. d_tagname j \<in> ?K \<and> ?mn j = ?mn i
               \<and> map_of (nodes s') (?mn i) = Some node \<and> n_type node = d_tagname j)"
    by blast
  have "reject (translate_callback opts file) (i # ds) s = Inr ([], s')"
    using t r by simp
  moreover have "\<forall>k. k \<notin> ?mn ` {j \<in> set (i # ds). d_tagname j \<in> ?K}
     \<longrightarrow> map_of (nodes s') k = map_of (nodes s) k"
  proof (intro allI impI)
    fix k assume a: "k \<notin> ?mn ` {j \<in> set (i # ds). d_tagname j \<in> ?K}"
    then have b: "k \<notin> ?mn ` {j \<in> set ds. d_tagname j \<in> ?K}" by auto
    from a have "d_tagname i \<in> ?K \<Longrightarrow> k \<noteq> ?mn i" by auto
    with n1 have "map_of (nodes s1) k = map_of (nodes s) k"
      by (auto simp: AList.update_conv' split: if_splits)
    with k b show "map_of (nodes s') k = map_of (nodes s) k" by simp
  qed
  moreover have "\<forall>i'\<in>set (i # ds). d_tagname i' \<in> ?K \<longrightarrow>
            (\<exists>j\<in>set (i # ds). \<exists>node. d_tagname j \<in> ?K \<and> ?mn j = ?mn i'
               \<and> map_of (nodes s') (?mn i') = Some node \<and> n_type node = d_tagname j)"
  proof (intro ballI impI)
    fix i' assume i': "i' \<in> set (i # ds)" "d_tagname i' \<in> ?K"
    show "\<exists>j\<in>set (i # ds). \<exists>node. d_tagname j \<in> ?K \<and> ?mn j = ?mn i'
               \<and> map_of (nodes s') (?mn i') = Some node \<and> n_type node = d_tagname j"
    proof (cases "?mn i' \<in> ?mn ` {j \<in> set ds. d_tagname j \<in> ?K}")
      case True
      then obtain i'' where i'': "i'' \<in> set ds" "d_tagname i'' \<in> ?K" "?mn i'' = ?mn i'"
        by auto
      with c obtain j node where "j \<in> set ds" "d_tagname j \<in> ?K" "?mn j = ?mn i''"
        "map_of (nodes s') (?mn i'') = Some node" "n_type node = d_tagname j"
        by blast
      with i''(3) show ?thesis by auto
    next
      case False
      with i' have e: "i' = i" by auto
      with i'(2) n1 obtain node where n: "nodes s1 = AList.update (?mn i) node (nodes s)"
        "n_type node = d_tagname i"
        by auto
      from False k have "map_of (nodes s') (?mn i') = map_of (nodes s1) (?mn i')"
        by blast
      with e n have "map_of (nodes s') (?mn i') = Some node"
        by (simp add: AList.update_conv')
      with e n(2) i'(2) show ?thesis by auto
    qed
  qed
  ultimately show ?case using pl by blast
qed

lemma post_node_plain:
  assumes "plain_node k n"
  shows "\<exists>n'. post_node file n list = list(''.'' @ k \<mapsto> n')
     \<and> n_id n' = k \<and> n_type n' = n_type n \<and> n_section n' = None \<and> n_bound n' = None"
  using assms
  by (auto simp: plain_node_def post_node_def set_key_def Let_def section_or_empty_def)

lemma fold_post_other:
  "list_all (\<lambda>kv. plain_node (fst kv) (snd kv)) es \<Longrightarrow> k \<notin> fst ` set es
   \<Longrightarrow> fold (\<lambda>kv list. post_node file (snd kv) list) es l (''.'' @ k) = l (''.'' @ k)"
proof (induction es arbitrary: l)
  case Nil
  then show ?case by simp
next
  case (Cons e es)
  from Cons.prems have p: "plain_node (fst e) (snd e)" and ne: "fst e \<noteq> k" by auto
  from post_node_plain [OF p, of "file" l] obtain n' where
    "post_node file (snd e) l = l(''.'' @ fst e \<mapsto> n')" by blast
  with ne have "post_node file (snd e) l (''.'' @ k) = l (''.'' @ k)" by simp
  with Cons show ?case by simp
qed

lemma fold_post_lookup:
  "distinct (map fst es) \<Longrightarrow> list_all (\<lambda>kv. plain_node (fst kv) (snd kv)) es
   \<Longrightarrow> (k, n) \<in> set es
   \<Longrightarrow> \<exists>n'. fold (\<lambda>kv list. post_node file (snd kv) list) es l (''.'' @ k) = Some n'
         \<and> n_id n' = k \<and> n_type n' = n_type n"
proof (induction es arbitrary: l)
  case Nil
  then show ?case by simp
next
  case (Cons e es)
  show ?case
  proof (cases "e = (k, n)")
    case True
    with Cons.prems have p: "plain_node k n" and nk: "k \<notin> fst ` set es"
      and pl: "list_all (\<lambda>kv. plain_node (fst kv) (snd kv)) es"
      by auto
    from post_node_plain [OF p, of "file" l] obtain n' where
      n': "post_node file n l = l(''.'' @ k \<mapsto> n')" "n_id n' = k" "n_type n' = n_type n"
      by blast
    from fold_post_other [OF pl nk, of "file" "post_node file n l"] n' True
    show ?thesis by simp
  next
    case False
    with Cons.prems have "(k, n) \<in> set es" "distinct (map fst es)"
      "list_all (\<lambda>kv. plain_node (fst kv) (snd kv)) es"
      by auto
    from Cons.IH [OF this(2,3,1)] show ?thesis by simp
  qed
qed

lemma post_node_keys:
  assumes "n_type n \<noteq> ''section''"
    and "\<forall>key v. list key = Some v \<longrightarrow> key = section_or_empty v @ ''.'' @ n_id v"
  shows "\<forall>key v. post_node file n list key = Some v \<longrightarrow> key = section_or_empty v @ ''.'' @ n_id v"
  using assms
  by (auto simp: post_node_def set_key_def Let_def section_or_empty_def split: if_splits)

lemma fold_post_keys:
  "list_all (\<lambda>kv. n_type (snd kv) \<noteq> ''section'') es
   \<Longrightarrow> \<forall>key v. l key = Some v \<longrightarrow> key = section_or_empty v @ ''.'' @ n_id v
   \<Longrightarrow> \<forall>key v. fold (\<lambda>kv list. post_node file (snd kv) list) es l key = Some v
         \<longrightarrow> key = section_or_empty v @ ''.'' @ n_id v"
proof (induction es arbitrary: l)
  case Nil
  then show ?case by simp
next
  case (Cons e es)
  from Cons.prems have t: "n_type (snd e) \<noteq> ''section''"
    and r: "list_all (\<lambda>kv. n_type (snd kv) \<noteq> ''section'') es"
    by simp_all
  from post_node_keys [OF t Cons.prems(2)]
  have "\<forall>key v. post_node file (snd e) l key = Some v \<longrightarrow> key = section_or_empty v @ ''.'' @ n_id v" .
  from Cons.IH [OF r this] show ?case by simp
qed

lemma set_js_enum: "set (js_enum obj) = set obj"
  by (auto simp: js_enum_def)

lemma distinct_js_enum:
  assumes "distinct (map fst obj)"
  shows "distinct (map fst (js_enum obj))"
proof -
  let ?A = "filter (\<lambda>kv. is_array_index (fst kv)) obj"
  let ?B = "filter (\<lambda>kv. \<not> is_array_index (fst kv)) obj"
  from assms have a: "distinct (map fst ?A)" and b: "distinct (map fst ?B)"
    by (simp_all add: distinct_map_filter)
  from a have "distinct (map fst (sort_key (\<lambda>kv. num_of (fst kv)) ?A))"
    by (simp add: distinct_map)
  moreover have "fst ` set (sort_key (\<lambda>kv. num_of (fst kv)) ?A) \<inter> fst ` set ?B = {}"
    by auto
  ultimately show ?thesis using b by (simp add: js_enum_def)
qed

lemma post_process_lookup:
  assumes "plain_nodes obj" and "map_of obj k = Some n"
  shows "\<exists>n'. post_process file obj (''.'' @ k) = Some n' \<and> n_id n' = k \<and> n_type n' = n_type n"
proof -
  from assms(1) have d: "distinct (map fst (js_enum obj))"
    by (simp add: plain_nodes_def distinct_js_enum)
  from assms(1) have p: "list_all (\<lambda>kv. plain_node (fst kv) (snd kv)) (js_enum obj)"
    by (simp add: plain_nodes_def list_all_iff set_js_enum)
  from assms(2) have "(k, n) \<in> set (js_enum obj)"
    by (simp add: set_js_enum map_of_SomeD)
  from fold_post_lookup [OF d p this] show ?thesis
    by (simp add: post_process_def)
qed

lemma post_process_keys:
  assumes "plain_nodes obj" and "post_process file obj key = Some v"
  shows "key = section_or_empty v @ ''.'' @ n_id v"
proof -
  from assms(1) have "list_all (\<lambda>kv. n_type (snd kv) \<noteq> ''section'') (js_enum obj)"
    by (simp add: plain_nodes_def plain_node_def list_all_iff set_js_enum)
  from fold_post_keys [OF this, of Map.empty "file"] assms(2) show ?thesis
    by (simp add: post_process_def)
qed

lemma translate_callback_plain:
  assumes "keep_docset i" and "plain_nodes (nodes s)"
    and "translate_callback opts file i s = Inr (b, s')"
  shows "plain_nodes (nodes s')"
proof -
  obtain prefix memberName where r: "resolve_name opts (classPrefix s) i = (prefix, memberName)"
    by (cases "resolve_name opts (classPrefix s) i")
  from assms(1) have doc: "\<not> (d_inheritdoc i = None \<and> d_doc i = None)"
    by (rule keep_docset_documented)
  from assms(3) have nf: "\<not> fatal_name memberName i"
    unfolding translate_callback_def r by (auto split: if_splits)
  consider (member) "d_tagname i = ''method'' \<or> d_tagname i = ''event''"
    | (val) "d_tagname i = ''property'' \<or> d_tagname i = ''attribute'' \<or> d_tagname i = ''binding''"
    | (other) "d_tagname i \<notin> {''method'', ''event'', ''property'', ''attribute'', ''binding''}"
    by auto
  then show ?thesis
  proof cases
    case member
    from member_node_result [OF doc, of memberName "d_tagname i = ''event''"]
    obtain node ws where n: "member_node memberName (d_tagname i = ''event'') i = Inr (node, ws)"
      and f: "n_id node = memberName"
        "n_type node = (if d_tagname i = ''event'' then ''event'' else ''method'')"
        "n_section node = None" "n_bound node = None"
      by blast
    from f have p: "plain_node memberName node"
      by (auto simp: plain_node_def)
    from assms(3) have "nodes s' = set_prop memberName node (nodes s)"
      unfolding translate_callback_def r using nf member n by auto
    with assms(2) p show ?thesis by (simp add: plain_nodes_set_prop)
  next
    case val
    from value_node_result [OF doc, of memberName "d_tagname i"]
    obtain node where n: "value_node memberName (d_tagname i) i = Inr node"
      and f: "n_id node = memberName" "n_type node = d_tagname i"
        "n_section node = None" "n_bound node = None"
      by blast
    from f val have p: "plain_node memberName node"
      by (auto simp: plain_node_def)
    from assms(3) have "nodes s' = set_prop memberName node (nodes s)"
      unfolding translate_callback_def r using nf val n by auto
    with assms(2) p show ?thesis by (simp add: plain_nodes_set_prop)
  next
    case other
    from assms(3) have "nodes s' = nodes s"
      unfolding translate_callback_def r using nf other by auto
    with assms(2) show ?thesis by simp
  qed
qed

lemma translate_pass_plain:
  "list_all keep_docset ds \<Longrightarrow> plain_nodes (nodes s)
   \<Longrightarrow> reject (translate_callback opts file) ds s = Inr (r, s')
   \<Longrightarrow> plain_nodes (nodes s')"
proof (induction ds arbitrary: s r)
  case Nil
  then show ?case by simp
next
  case (Cons i ds)
  from Cons.prems(3) obtain b s1 r' where
    t: "translate_callback opts file i s = Inr (b, s1)"
    and u: "reject (translate_callback opts file) ds s1 = Inr (r', s')"
    by (auto split: sum.splits)
  from Cons.prems(1) have k: "keep_docset i" "list_all keep_docset ds"
    by simp_all
  from translate_callback_plain [OF k(1) Cons.prems(2) t] have "plain_nodes (nodes s1)" .
  from Cons.IH [OF k(2) this u] show ?case .
qed

lemma fold_post_unbound:
  "list_all (\<lambda>kv. plain_node (fst kv) (snd kv)) es
   \<Longrightarrow> \<forall>key v. l key = Some v \<longrightarrow> n_bound v = None \<and> n_section v = None
   \<Longrightarrow> \<forall>key v. fold (\<lambda>kv list. post_node file (snd kv) list) es l key = Some v
         \<longrightarrow> n_bound v = None \<and> n_section v = None"
proof (induction es arbitrary: l)
  case Nil
  then show ?case by simp
next
  case (Cons e es)
  from Cons.prems(1) have p: "plain_node (fst e) (snd e)"
    and r: "list_all (\<lambda>kv. plain_node (fst kv) (snd kv)) es"
    by simp_all
  from post_node_plain [OF p, of "file" l] obtain n' where
    n': "post_node file (snd e) l = l(''.'' @ fst e \<mapsto> n')" "n_section n' = None"
      "n_bound n' = None"
    by blast
  with Cons.prems(2)
  have "\<forall>key v. post_node file (snd e) l key = Some v \<longrightarrow> n_bound v = None \<and> n_section v = None"
    by auto
  from Cons.IH [OF r this] show ?case by simp
qed

text \<open>No run of \<open>process_jsd\<close> delivers a node with a \<open>bound\<close> or a \<open>section\<close>: the nodes
  come from \<open>createBasicTranslation\<close>, which copies neither from the docset, so the last
  pass never takes the branch that clones a bound method.\<close>

lemma process_jsd_unbound:
  assumes "process_jsd merged file opts = Inr (list, ws)" and "list key = Some v"
  shows "n_bound v = None \<and> n_section v = None"
proof -
  from assms(1) obtain r1 s1 r2 s2 where
    r1: "reject class_callback merged init_state = Inr (r1, s1)"
    and r2: "reject (translate_callback opts file) (filter_docsets r1) s1 = Inr (r2, s2)"
    and l: "list = post_process file (nodes s2)"
    by (auto simp: process_jsd_def split: sum.splits)
  have "plain_nodes (nodes init_state)"
    by (simp add: plain_nodes_def init_state_def)
  from class_pass_plain [OF this r1] have p1: "plain_nodes (nodes s1)" .
  have "list_all keep_docset (filter_docsets r1)"
    by (simp add: filter_docsets_def list_all_iff)
  from translate_pass_plain [OF this p1 r2] have "plain_nodes (nodes s2)" .
  then have "list_all (\<lambda>kv. plain_node (fst kv) (snd kv)) (js_enum (nodes s2))"
    by (simp add: plain_nodes_def list_all_iff set_js_enum)
  from fold_post_unbound [OF this, of Map.empty "file"] assms(2) l show ?thesis
    by (simp add: post_process_def)
qed

text \<open>Claim C1, as the code has it. Take a merged docset list whose class-tagged docsets
  with a defined \<open>doc\<close> are all named \<open>Foo\<close>, with at least one of them, and which holds a
  method-tagged docset named \<open>bar\<close> that passes the filter, while no property, attribute
  or binding docset named \<open>bar\<close> passes it. With a defined \<open>globalNS\<close> option and no fatal
  name among the docsets that pass the filter, the run delivers a map that has a node of
  id \<open>Foo\<close> and type \<open>class\<close> under the key \<open>.Foo\<close> and a node of id \<open>Foo.bar\<close> and type
  \<open>method\<close> under the key \<open>.Foo.bar\<close>, and every key of the map is the node's section
  (or the empty string), a dot and the node's id.\<close>

theorem class_and_method_stored:
  assumes "globalNS opts = Some g"
    and "c \<in> set merged" and "is_class c"
    and "\<forall>i\<in>set merged. is_class i \<longrightarrow> d_name i = ''Foo''"
    and "m \<in> set merged" and "d_tagname m = ''method''" and "d_name m = ''bar''"
    and "keep_docset m"
    and "\<forall>i\<in>set merged. keep_docset i \<and> d_name i = ''bar''
           \<longrightarrow> d_tagname i \<notin> {''property'', ''attribute'', ''binding''}"
    and "\<forall>i\<in>set merged. keep_docset i \<and> \<not> is_class i
           \<longrightarrow> \<not> fatal_name (snd (resolve_name opts (Some ''Foo'') i)) i"
  shows "\<exists>list ws nc nm.
      process_jsd merged file opts = Inr (list, ws)
    \<and> list ''.Foo'' = Some nc \<and> n_id nc = ''Foo'' \<and> n_type nc = ''class''
    \<and> list ''.Foo.bar'' = Some nm \<and> n_id nm = ''Foo.bar'' \<and> n_type nm = ''method''
    \<and> (\<forall>key v. list key = Some v \<longrightarrow> key = section_or_empty v @ ''.'' @ n_id v)"
proof -
  let ?K = "{''method'', ''event'', ''property'', ''attribute'', ''binding''}"
  let ?mn = "\<lambda>i. snd (resolve_name opts (Some ''Foo'') i)"
  have mn: "?mn i = ''Foo'' @ (if d_tagname i = ''event'' then ''@'' else ''.'') @ d_name i" for i
    using assms(1) by (simp add: resolve_name_prefixed)
  \<comment> \<open>the class pass\<close>
  from class_pass_general [of merged init_state] obtain s1 where
    r1: "reject class_callback merged init_state = Inr (filter (\<lambda>i. \<not> is_class i) merged, s1)"
    and p1: "classPrefix s1 =
          (case filter is_class merged of
             [] \<Rightarrow> classPrefix init_state
           | c # cs \<Rightarrow> Some (d_name (last (c # cs))))"
    and m1: "\<forall>k. map_of (nodes s1) k =
          (case filter (\<lambda>i. is_class i \<and> d_name i = k) merged of
             [] \<Rightarrow> map_of (nodes init_state) k
           | c # cs \<Rightarrow>
               if k = ''__proto__'' then map_of (nodes init_state) k
               else Some (projr (class_node (last (c # cs)))))"
    by blast
  have "plain_nodes (nodes init_state)"
    by (simp add: plain_nodes_def init_state_def)
  from class_pass_plain [OF this r1] have pl1: "plain_nodes (nodes s1)" .
  from assms(2,3) have ne: "filter is_class merged \<noteq> []"
    by (auto simp: filter_empty_conv)
  then have "last (filter is_class merged) \<in> set (filter is_class merged)"
    by (rule last_in_set)
  with assms(4) have "d_name (last (filter is_class merged)) = ''Foo''"
    by auto
  with p1 ne have cp1: "classPrefix s1 = Some ''Foo''"
    by (cases "filter is_class merged") auto
  from assms(2,3,4) have "c \<in> set (filter (\<lambda>i. is_class i \<and> d_name i = ''Foo'') merged)"
    by simp
  then obtain x xs where fx: "filter (\<lambda>i. is_class i \<and> d_name i = ''Foo'') merged = x # xs"
    by (cases "filter (\<lambda>i. is_class i \<and> d_name i = ''Foo'') merged") auto
  have "last (x # xs) \<in> set (filter (\<lambda>i. is_class i \<and> d_name i = ''Foo'') merged)"
    unfolding fx by (rule last_in_set) simp
  then have j: "is_class (last (x # xs))" "d_name (last (x # xs)) = ''Foo''"
    by simp_all
  from class_node_result [OF j(1)] obtain cn where cn: "class_node (last (x # xs)) = Inr cn"
    "n_id cn = d_name (last (x # xs))" "n_type cn = ''class''"
    by blast
  from m1 [rule_format, of "''Foo''"] fx cn(1) have foo1: "map_of (nodes s1) ''Foo'' = Some cn"
    by simp
  \<comment> \<open>the filter and the second pass\<close>
  let ?ds = "filter_docsets (filter (\<lambda>i. \<not> is_class i) merged)"
  have ds: "set ?ds = {i \<in> set merged. keep_docset i \<and> \<not> is_class i}"
    by (auto simp: filter_docsets_def)
  from assms(6) have ncm: "\<not> is_class m" by (simp add: is_class_def)
  with assms(5,8) have m_in: "m \<in> set ?ds" by (simp add: ds)
  have "list_all (\<lambda>i. keep_docset i \<and> \<not> fatal_name (?mn i) i) ?ds"
    using assms(10) by (simp add: list_all_iff ds)
  from translate_pass [OF assms(1) this cp1 pl1, of "file"] obtain s2 where
    r2: "reject (translate_callback opts file) ?ds s1 = Inr ([], s2)"
    and pl2: "plain_nodes (nodes s2)"
    and k2: "\<forall>k. k \<notin> ?mn ` {i \<in> set ?ds. d_tagname i \<in> ?K}
            \<longrightarrow> map_of (nodes s2) k = map_of (nodes s1) k"
    and c2: "\<forall>i\<in>set ?ds. d_tagname i \<in> ?K \<longrightarrow>
            (\<exists>j\<in>set ?ds. \<exists>node. d_tagname j \<in> ?K \<and> ?mn j = ?mn i
               \<and> map_of (nodes s2) (?mn i) = Some node \<and> n_type node = d_tagname j)"
    by blast
  have "''Foo'' \<notin> ?mn ` {i \<in> set ?ds. d_tagname i \<in> ?K}"
    by (auto simp: mn)
  with k2 foo1 have foo2: "map_of (nodes s2) ''Foo'' = Some cn"
    by simp
  from assms(6,7) have mnm: "?mn m = ''Foo.bar''" by (simp add: mn)
  from assms(6) have "d_tagname m \<in> ?K" by simp
  with c2 m_in obtain j' node where j': "j' \<in> set ?ds" "d_tagname j' \<in> ?K" "?mn j' = ?mn m"
    and bar2: "map_of (nodes s2) (?mn m) = Some node" "n_type node = d_tagname j'"
    by blast
  from j'(3) mnm have "d_tagname j' \<noteq> ''event''" "d_name j' = ''bar''"
    by (auto simp: mn split: if_splits)
  moreover from j'(1) have "j' \<in> set merged" "keep_docset j'" by (simp_all add: ds)
  ultimately have "d_tagname j' = ''method''"
    using j'(2) assms(9) by auto
  with bar2 mnm have bar2': "map_of (nodes s2) ''Foo.bar'' = Some node" "n_type node = ''method''"
    by simp_all
  \<comment> \<open>the pass over the nodes\<close>
  from post_process_lookup [OF pl2 foo2, of "file"] obtain nc where
    nc: "post_process file (nodes s2) (''.'' @ ''Foo'') = Some nc" "n_id nc = ''Foo''"
      "n_type nc = n_type cn"
    by blast
  from post_process_lookup [OF pl2 bar2'(1), of "file"] obtain nm where
    nm: "post_process file (nodes s2) (''.'' @ ''Foo.bar'') = Some nm" "n_id nm = ''Foo.bar''"
      "n_type nm = n_type node"
    by blast
  have keys: "\<forall>key v. post_process file (nodes s2) key = Some v
      \<longrightarrow> key = section_or_empty v @ ''.'' @ n_id v"
    using post_process_keys [OF pl2] by blast
  have "process_jsd merged file opts = Inr (post_process file (nodes s2), warns s2)"
    by (simp add: process_jsd_def r1 r2)
  with nc nm cn(3) bar2'(2) keys show ?thesis
    by auto
qed

text \<open>C1 on the list of class \<open>Foo\<close> and method \<open>bar\<close>.\<close>

theorem class_and_method_stored_witness:
  "\<exists>list ws nc nm.
      process_jsd [class_Foo, method_bar] ''f.js'' opts_NS = Inr (list, ws)
    \<and> list ''.Foo'' = Some nc \<and> n_id nc = ''Foo'' \<and> n_type nc = ''class''
    \<and> list ''.Foo.bar'' = Some nm \<and> n_id nm = ''Foo.bar'' \<and> n_type nm = ''method''
    \<and> (\<forall>key v. list key = Some v \<longrightarrow> key = section_or_empty v @ ''.'' @ n_id v)"
proof (rule class_and_method_stored [where g = "''NS''" and c = class_Foo and m = method_bar])
  show "globalNS opts_NS = Some ''NS''" by (simp add: opts_NS_def)
  show "class_Foo \<in> set [class_Foo, method_bar]" by simp
  show "is_class class_Foo" by (simp add: is_class_def class_Foo_def docset0_def)
  show "\<forall>i\<in>set [class_Foo, method_bar]. is_class i \<longrightarrow> d_name i = ''Foo''"
    by (simp add: is_class_def class_Foo_def method_bar_def docset0_def)
  show "method_bar \<in> set [class_Foo, method_bar]" by simp
  show "d_tagname method_bar = ''method''" by (simp add: method_bar_def docset0_def)
  show "d_name method_bar = ''bar''" by (simp add: method_bar_def docset0_def)
  show "keep_docset method_bar" by (simp add: keep_docset_def method_bar_def docset0_def)
  show "\<forall>i\<in>set [class_Foo, method_bar]. keep_docset i \<and> d_name i = ''bar''
           \<longrightarrow> d_tagname i \<notin> {''property'', ''attribute'', ''binding''}"
    by (simp add: class_Foo_def method_bar_def docset0_def)
  show "\<forall>i\<in>set [class_Foo, method_bar]. keep_docset i \<and> \<not> is_class i
           \<longrightarrow> \<not> fatal_name (snd (resolve_name opts_NS (Some ''Foo'') i)) i"
    by (simp add: is_class_def class_Foo_def method_bar_def docset0_def opts_NS_def
        resolve_name_def globalNS_truthy_def join2_def fatal_name_def lastIndexOf_def)
qed

text \<open>Claim C1 as stated fails on a list of a class docset \<open>Foo\<close> and a method docset \<open>bar\<close>
  when the method has no description (the filter drops it; the class node is delivered),
  and, for the documented method, when no \<open>globalNS\<close> option is given: the method's id is
  then \<open>Foobar\<close>.\<close>

theorem method_not_under_Foo_bar:
  "map_option n_type
     (lookup_result (process_jsd [class_Foo, method_nodoc] ''f.js'' opts_NS) ''.Foo'')
     = Some ''class''
   \<and> lookup_result (process_jsd [class_Foo, method_nodoc] ''f.js'' opts_NS) ''.Foo.bar'' = None
   \<and> lookup_result (process_jsd [class_Foo, method_bar] ''f.js'' opts_none) ''.Foo.bar'' = None
   \<and> map_option n_id
       (lookup_result (process_jsd [class_Foo, method_bar] ''f.js'' opts_none) ''.Foobar'')
     = Some ''Foobar''"
  by (simp add: lookup_result_def process_jsd_def init_state_def class_Foo_def method_nodoc_def
      method_bar_def docset0_def opts_NS_def opts_none_def class_callback_def is_class_def
      class_node_def createBasicTranslation_def filter_docsets_def keep_docset_def
      translate_callback_def resolve_name_def globalNS_truthy_def join2_def fatal_name_def
      lastIndexOf_def member_node_def make_ret_def post_process_def js_enum_def
      is_array_index_def is_digit_def num_of_def post_node_def set_key_def set_prop_def
      section_or_empty_def)

subsection \<open>Bound method docsets\<close>

text \<open>Claim C3 at a method docset \<open>bar\<close> with \<open>bound\<close> true, under the class \<open>Foo\<close> with
  \<open>globalNS\<close> defined. The run delivers the class node and one method node \<open>Foo.bar\<close>, which
  has no \<open>bound\<close> link; there is no clone under \<open>.Foo#bar\<close>, where the claim (and the comment
  in the last pass) has two cross-linked nodes.\<close>

theorem bound_docset_one_node:
  "truthy (d_bound method_bar_bound)
   \<and> result_keys (process_jsd [class_Foo, method_bar_bound] ''f.js'' opts_NS)
     = {''.Foo.bar'', ''.Foo''}
   \<and> map_option n_type
       (lookup_result (process_jsd [class_Foo, method_bar_bound] ''f.js'' opts_NS) ''.Foo.bar'')
     = Some ''method''
   \<and> map_option n_bound
       (lookup_result (process_jsd [class_Foo, method_bar_bound] ''f.js'' opts_NS) ''.Foo.bar'')
     = Some None
   \<and> lookup_result (process_jsd [class_Foo, method_bar_bound] ''f.js'' opts_NS) ''.Foo#bar''
     = None"
  by (simp add: lookup_result_def result_keys_def process_jsd_def init_state_def class_Foo_def
      method_bar_bound_def method_bar_def docset0_def opts_NS_def class_callback_def is_class_def
      set_prop_def set_key_def class_node_def createBasicTranslation_def filter_docsets_def
      keep_docset_def translate_callback_def resolve_name_def globalNS_truthy_def join2_def
      fatal_name_def lastIndexOf_def member_node_def make_ret_def post_process_def js_enum_def
      is_array_index_def is_digit_def num_of_def post_node_def section_or_empty_def)

end
